theory Spec2Isabelle
  imports Complex_Main "HOL-Library.List_Lexorder" "HOL-Library.Product_Lexorder" "HOL-Library.Sublist"
begin

section \<open>Text: Python strings as sequences of code points\<close>

text \<open>
  A Python \<open>str\<close> is a sequence of Unicode code points, so texts are lists of naturals.
  \<open>ascii\<close> turns an ASCII literal into such a text. The character classes below are the
  ones the scripts rely on (\<open>str.split\<close>, \<open>str.strip\<close>, and the \<open>\s\<close> and \<open>\d\<close> of
  the \<open>re\<close> module on \<open>str\<close> patterns), with the tables of Unicode 14.
\<close>

type_synonym ustr = "nat list"

definition ascii :: "string \<Rightarrow> ustr" where
  "ascii s = map of_char s"

definition is_space :: "nat \<Rightarrow> bool" where
  "is_space c \<longleftrightarrow>
     (9 \<le> c \<and> c \<le> 13) \<or> (28 \<le> c \<and> c \<le> 32) \<or> c = 133 \<or> c = 160 \<or> c = 5760 \<or>
     (8192 \<le> c \<and> c \<le> 8202) \<or> c = 8232 \<or> c = 8233 \<or> c = 8239 \<or> c = 8287 \<or> c = 12288"

text \<open>
  The decimal digits (category Nd) come in blocks of ten consecutive code points with the
  values 0 to 9; the mathematical digits U+1D7CE to U+1D7FF are five such blocks in a row.
\<close>

definition nd_blocks :: "nat list" where
  "nd_blocks =
    [1632, 1776, 1984, 2406, 2534, 2662, 2790, 2918, 3046, 3174, 3302, 3430, 3558, 3664,
     3792, 3872, 4160, 4240, 6112, 6160, 6470, 6608, 6784, 6800, 6992, 7088, 7232, 7248,
     42528, 43216, 43264, 43472, 43504, 43600, 44016, 65296, 66720, 68912, 69734, 69872,
     69942, 70096, 70384, 70736, 70864, 71248, 71360, 71472, 71904, 72016, 72784, 73040,
     73120, 92768, 92864, 93008, 120782, 120792, 120802, 120812, 120822, 123200, 123632,
     125264, 130032]"

definition decimal_value :: "nat \<Rightarrow> nat option" where
  "decimal_value c =
     (if c < 128 then (if 48 \<le> c \<and> c \<le> 57 then Some (c - 48) else None)
      else case find (\<lambda>b. b \<le> c \<and> c < b + 10) nd_blocks of
             Some b \<Rightarrow> Some (c - b)
           | None \<Rightarrow> None)"

definition is_digit :: "nat \<Rightarrow> bool" where
  "is_digit c \<longleftrightarrow> decimal_value c \<noteq> None"

text \<open>\<open>s.replace(c, "")\<close> for a single character \<open>c\<close>, and \<open>s.strip()\<close>.\<close>

definition remove_char :: "nat \<Rightarrow> ustr \<Rightarrow> ustr" where
  "remove_char c s = filter (\<lambda>x. x \<noteq> c) s"

definition strip :: "ustr \<Rightarrow> ustr" where
  "strip s = rev (dropWhile is_space (rev (dropWhile is_space s)))"

text \<open>
  \<open>text.split()\<close> cuts the text at runs of whitespace and drops empty words;
  \<open>" ".join(words)\<close> puts single spaces between the words.
\<close>

fun split_ws :: "ustr \<Rightarrow> ustr \<Rightarrow> ustr list" where
  "split_ws w [] = (if w = [] then [] else [w])"
| "split_ws w (c # cs) =
     (if is_space c then (if w = [] then split_ws [] cs else w # split_ws [] cs)
      else split_ws (w @ [c]) cs)"

fun join_sp :: "ustr list \<Rightarrow> ustr" where
  "join_sp [] = []"
| "join_sp [w] = w"
| "join_sp (w # ws) = w @ 32 # join_sp ws"

definition normalize_ws :: "ustr \<Rightarrow> ustr" where
  "normalize_ws t = join_sp (split_ws [] t)"

section \<open>Numbers: Python floats\<close>

text \<open>
  A Python \<open>float\<close> is an IEEE 754 binary64 value. A finite one is modelled by the rational
  it denotes (the two zeros are identified: they are equal and both false in Python).
  Every operation computes the exact result and rounds it to the nearest double, ties to
  even, which is \<open>round_double\<close>: 53 bits of precision, gradual underflow below
  \<open>2^-1022\<close>, overflow to infinity from \<open>2^1024\<close>.
\<close>

datatype pyfloat = Fin rat | Inf bool | NaN

fun bit_length :: "nat \<Rightarrow> nat" where
  "bit_length n = (if n = 0 then 0 else Suc (bit_length (n div 2)))"

declare bit_length.simps [simp del]

definition pow2 :: "int \<Rightarrow> rat" where
  "pow2 k = (if 0 \<le> k then 2 ^ nat k else 1 / 2 ^ nat (- k))"

text \<open>\<open>ilog2 a\<close> is the integer \<open>k\<close> with \<open>2^k \<le> a < 2^(k+1)\<close>, for \<open>a > 0\<close>.\<close>

definition ilog2 :: "rat \<Rightarrow> int" where
  "ilog2 a =
     (if 1 \<le> a then int (bit_length (nat \<lfloor>a\<rfloor>)) - 1
      else - int (bit_length (nat (\<lceil>1 / a\<rceil> - 1))))"

definition round_half_even :: "rat \<Rightarrow> int" where
  "round_half_even q =
     (let f = \<lfloor>q\<rfloor>; d = q - of_int f
      in if d < 1 / 2 then f else if 1 / 2 < d then f + 1 else if even f then f else f + 1)"

definition round_double :: "rat \<Rightarrow> pyfloat" where
  "round_double x =
     (if x = 0 then Fin 0
      else let a = \<bar>x\<bar>;
               e = max (ilog2 a) (- 1022);
               q = pow2 (e - 52);
               y = of_int (round_half_even (a / q)) * q
           in if pow2 1024 \<le> y then Inf (x < 0) else Fin (if x < 0 then - y else y))"

text \<open>Subtraction, absolute value, \<open>>\<close> and truth value of floats.\<close>

fun fsub :: "pyfloat \<Rightarrow> pyfloat \<Rightarrow> pyfloat" where
  "fsub (Fin x) (Fin y) = round_double (x - y)"
| "fsub NaN _ = NaN"
| "fsub _ NaN = NaN"
| "fsub (Inf s) (Inf t) = (if s = t then NaN else Inf s)"
| "fsub (Inf s) (Fin _) = Inf s"
| "fsub (Fin _) (Inf t) = Inf (\<not> t)"

fun fabs :: "pyfloat \<Rightarrow> pyfloat" where
  "fabs (Fin x) = Fin \<bar>x\<bar>"
| "fabs (Inf _) = Inf False"
| "fabs NaN = NaN"

fun fgt :: "pyfloat \<Rightarrow> pyfloat \<Rightarrow> bool" where
  "fgt (Fin x) (Fin y) = (y < x)"
| "fgt NaN _ = False"
| "fgt _ NaN = False"
| "fgt (Inf s) (Inf t) = (\<not> s \<and> t)"
| "fgt (Inf s) (Fin _) = (\<not> s)"
| "fgt (Fin _) (Inf t) = t"

fun truthy :: "pyfloat \<Rightarrow> bool" where
  "truthy (Fin x) = (x \<noteq> 0)"
| "truthy _ = True"

section \<open>\<open>float(str)\<close>\<close>

text \<open>
  \<open>float\<close> of a string: code points above ASCII are first mapped to ASCII (whitespace to a
  space, a decimal digit to its ASCII digit, anything else to \<open>?\<close>, where the copy stops);
  underscores are accepted between digits only and removed; ASCII whitespace is stripped
  at both ends; what is left must be, entirely, an optional sign followed by \<open>inf\<close>,
  \<open>infinity\<close> or \<open>nan\<close> in any case, or by a decimal number with at least one digit and an
  optional exponent. Anything else raises \<open>ValueError\<close>.
\<close>

datatype py_error = ValueError

fun to_ascii_decimal :: "ustr \<Rightarrow> ustr" where
  "to_ascii_decimal [] = []"
| "to_ascii_decimal (c # cs) =
     (if c < 127 then c # to_ascii_decimal cs
      else if is_space c then 32 # to_ascii_decimal cs
      else case decimal_value c of
             None \<Rightarrow> [63]
           | Some d \<Rightarrow> (48 + d) # to_ascii_decimal cs)"

definition is_ascii_digit :: "nat \<Rightarrow> bool" where
  "is_ascii_digit c \<longleftrightarrow> 48 \<le> c \<and> c \<le> 57"

definition is_ascii_space :: "nat \<Rightarrow> bool" where
  "is_ascii_space c \<longleftrightarrow> (9 \<le> c \<and> c \<le> 13) \<or> c = 32"

fun underscores_ok :: "nat \<Rightarrow> ustr \<Rightarrow> bool" where
  "underscores_ok prev [] = (prev \<noteq> 95)"
| "underscores_ok prev (p # ps) =
     (if p = 95 then is_ascii_digit prev \<and> underscores_ok p ps
      else (prev = 95 \<longrightarrow> is_ascii_digit p) \<and> underscores_ok p ps)"

fun digits_value :: "nat \<Rightarrow> ustr \<Rightarrow> nat" where
  "digits_value acc [] = acc"
| "digits_value acc (c # cs) = digits_value (10 * acc + (c - 48)) cs"

definition ascii_lower :: "nat \<Rightarrow> nat" where
  "ascii_lower c = (if 65 \<le> c \<and> c \<le> 90 then c + 32 else c)"

definition split_sign :: "ustr \<Rightarrow> bool \<times> ustr" where
  "split_sign s =
     (case s of
        [] \<Rightarrow> (False, [])
      | c # cs \<Rightarrow> if c = 45 then (True, cs) else if c = 43 then (False, cs) else (False, s))"

definition parse_inf_or_nan :: "ustr \<Rightarrow> py_error + pyfloat" where
  "parse_inf_or_nan s =
     (let (neg, r) = split_sign s; w = map ascii_lower r
      in if w = ascii ''inf'' \<or> w = ascii ''infinity'' then Inr (Inf neg)
         else if w = ascii ''nan'' then Inr NaN
         else Inl ValueError)"

text \<open>
  The exponent is read only when at least one digit follows \<open>e\<close> and its optional sign;
  otherwise the number ends before the \<open>e\<close>.
\<close>

definition split_exponent :: "ustr \<Rightarrow> int \<times> ustr" where
  "split_exponent s =
     (case s of
        [] \<Rightarrow> (0, [])
      | c # cs \<Rightarrow>
          if c = 101 \<or> c = 69 then
            (let (neg, r) = split_sign cs;
                 ds = takeWhile is_ascii_digit r
             in if ds = [] then (0, s)
                else ((if neg then - int (digits_value 0 ds) else int (digits_value 0 ds)),
                      dropWhile is_ascii_digit r))
          else (0, s))"

definition pow10 :: "int \<Rightarrow> rat" where
  "pow10 k = (if 0 \<le> k then 10 ^ nat k else 1 / 10 ^ nat (- k))"

definition parse_decimal :: "ustr \<Rightarrow> py_error + pyfloat" where
  "parse_decimal s =
     (let (neg, r) = split_sign s;
          ip = takeWhile is_ascii_digit r;
          r1 = dropWhile is_ascii_digit r;
          fp = (case r1 of [] \<Rightarrow> [] | c # cs \<Rightarrow> if c = 46 then takeWhile is_ascii_digit cs else []);
          r2 = (case r1 of [] \<Rightarrow> [] | c # cs \<Rightarrow> if c = 46 then dropWhile is_ascii_digit cs else r1)
      in if ip = [] \<and> fp = [] then parse_inf_or_nan s
         else let (ex, r3) = split_exponent r2;
                  m = of_nat (digits_value 0 (ip @ fp)) * pow10 (ex - int (length fp))
              in if r3 = [] then Inr (round_double (if neg then - m else m))
                 else Inl ValueError)"

definition strip_ascii :: "ustr \<Rightarrow> ustr" where
  "strip_ascii s = rev (dropWhile is_ascii_space (rev (dropWhile is_ascii_space s)))"

definition py_float :: "ustr \<Rightarrow> py_error + pyfloat" where
  "py_float v =
     (let s = to_ascii_decimal v
      in if 95 \<in> set s then
           (if underscores_ok 0 s then parse_decimal (strip_ascii (remove_char 95 s))
            else Inl ValueError)
         else parse_decimal (strip_ascii s))"

section \<open>The scraper: \<open>scrape_ideon_map.py\<close>\<close>

subsection \<open>\<open>parse_money\<close>\<close>

text \<open>
  The argument is a string or \<open>None\<close>. \<open>not value\<close> holds for \<open>None\<close> and for the empty
  string. The \<open>ValueError\<close> of \<open>float\<close> is caught and becomes \<open>None\<close>.
\<close>

definition parse_money :: "ustr option \<Rightarrow> pyfloat option" where
  "parse_money value =
     (case value of
        None \<Rightarrow> None
      | Some v \<Rightarrow>
          if v = [] then None
          else let cleaned = strip (remove_char 36 (remove_char 44 v))
               in (case py_float cleaned of
                     Inr x \<Rightarrow> Some x
                   | Inl ValueError \<Rightarrow> None))"

subsection \<open>Regular expressions\<close>

text \<open>
  The patterns of the scraper are sequences of single-character items, each a character
  class with a quantifier (\<open>c\<close>, \<open>c?\<close>, \<open>c*\<close>, \<open>c+\<close>, all greedy), and their groups enclose
  whole items and are never repeated. So a pattern is a list of items, and an item
  carries the name of the group it stands in, if any. \<open>rmatch\<close> is the backtracking
  matcher of \<open>re\<close> anchored at the start of the text: a greedy item first takes one more
  character and gives it back only when the rest of the pattern fails after it. It
  returns the captured groups and the text left after the match.
\<close>

datatype quant = Once | Optional | ZeroOrMore | OneOrMore

datatype item = Item quant "nat \<Rightarrow> bool" "string option"

type_synonym groups = "string \<Rightarrow> ustr"

type_synonym rmatch = "groups \<times> ustr"

definition push :: "string option \<Rightarrow> nat \<Rightarrow> rmatch \<Rightarrow> rmatch" where
  "push g x m = (case g of None \<Rightarrow> m | Some n \<Rightarrow> ((fst m)(n := x # fst m n), snd m))"

fun rmatch :: "item list \<Rightarrow> ustr \<Rightarrow> rmatch option" where
  "rmatch [] s = Some (\<lambda>_. [], s)"
| "rmatch (Item Once c g # r) [] = None"
| "rmatch (Item Once c g # r) (x # xs) =
     (if c x then map_option (push g x) (rmatch r xs) else None)"
| "rmatch (Item Optional c g # r) [] = rmatch r []"
| "rmatch (Item Optional c g # r) (x # xs) =
     (if c x then
        (case rmatch r xs of
           Some m \<Rightarrow> Some (push g x m)
         | None \<Rightarrow> rmatch r (x # xs))
      else rmatch r (x # xs))"
| "rmatch (Item ZeroOrMore c g # r) [] = rmatch r []"
| "rmatch (Item ZeroOrMore c g # r) (x # xs) =
     (if c x then
        (case rmatch (Item ZeroOrMore c g # r) xs of
           Some m \<Rightarrow> Some (push g x m)
         | None \<Rightarrow> rmatch r (x # xs))
      else rmatch r (x # xs))"
| "rmatch (Item OneOrMore c g # r) [] = None"
| "rmatch (Item OneOrMore c g # r) (x # xs) =
     (if c x then map_option (push g x) (rmatch (Item ZeroOrMore c g # r) xs) else None)"

text \<open>\<open>pattern.search(text)\<close>: the match at the leftmost position that has one.\<close>

fun search :: "item list \<Rightarrow> ustr \<Rightarrow> rmatch option" where
  "search p [] = rmatch p []"
| "search p (x # xs) =
     (case rmatch p (x # xs) of
        Some m \<Rightarrow> Some m
      | None \<Rightarrow> search p xs)"

text \<open>
  \<open>re.findall\<close> of a pattern with one group, named \<open>1\<close> here: the group of each match,
  from left to right, each search starting where the previous match ended. The pattern
  this is used with takes at least one character, so every match shortens the text.
\<close>

function findall :: "item list \<Rightarrow> ustr \<Rightarrow> ustr list" where
  "findall p s =
     (case search p s of
        None \<Rightarrow> []
      | Some m \<Rightarrow> fst m ''1'' # (if length (snd m) < length s then findall p (snd m) else []))"
  by pat_completeness auto
termination
  by (relation "measure (\<lambda>(p, s). length s)") auto

declare findall.simps [simp del]

text \<open>Character classes. Under \<open>re.IGNORECASE\<close> a letter of the pattern also matches its
  other case, and \<open>i\<close>, \<open>s\<close> and \<open>k\<close> match the four letters U+0130, U+0131, U+017F and
  U+212A whose case mappings reach them.\<close>

definition ci :: "nat \<Rightarrow> nat \<Rightarrow> bool" where
  "ci c x \<longleftrightarrow>
     ascii_lower x = ascii_lower c \<or>
     (ascii_lower c = 105 \<and> (x = 304 \<or> x = 305)) \<or>
     (ascii_lower c = 115 \<and> x = 383) \<or>
     (ascii_lower c = 107 \<and> x = 8490)"

definition lit :: "string \<Rightarrow> item list" where
  "lit s = map (\<lambda>c. Item Once (\<lambda>x. x = of_char c) None) s"

definition lit_i :: "string \<Rightarrow> item list" where
  "lit_i s = map (\<lambda>c. Item Once (ci (of_char c)) None) s"

definition ws0 :: item where
  "ws0 = Item ZeroOrMore is_space None"

definition not_comma :: "nat \<Rightarrow> bool" where
  "not_comma x \<longleftrightarrow> x \<noteq> 44"

definition upper_az :: "nat \<Rightarrow> bool" where
  "upper_az x \<longleftrightarrow> 65 \<le> x \<and> x \<le> 90"

definition upper_az_i :: "nat \<Rightarrow> bool" where
  "upper_az_i x \<longleftrightarrow>
     (65 \<le> x \<and> x \<le> 90) \<or> (97 \<le> x \<and> x \<le> 122) \<or> x = 304 \<or> x = 305 \<or> x = 383 \<or> x = 8490"

text \<open>
  The class between \<open>Ind\<close> and \<open>Small\<close> in the source file is the hyphen followed by the
  three code points U+00E2, U+20AC and U+201C; under \<open>re.IGNORECASE\<close> U+00E2 also matches
  its capital U+00C2.
\<close>

definition dash_class :: "nat \<Rightarrow> bool" where
  "dash_class x \<longleftrightarrow> x = 45 \<or> x = 226 \<or> x = 194 \<or> x = 8364 \<or> x = 8220"

definition amount_class :: "nat \<Rightarrow> bool" where
  "amount_class x \<longleftrightarrow> is_digit x \<or> x = 44 \<or> x = 46 \<or> x = 45"

definition digit_or_comma :: "nat \<Rightarrow> bool" where
  "digit_or_comma x \<longleftrightarrow> is_digit x \<or> x = 44"

definition dollar_opt :: item where
  "dollar_opt = Item Optional (\<lambda>x. x = 36) None"

definition TOOLTIP_PATTERN :: "item list" where
  "TOOLTIP_PATTERN =
     [Item OneOrMore not_comma (Some ''county'')] @ lit_i '','' @ [ws0,
      Item Once upper_az_i (Some ''state''), Item Once upper_az_i (Some ''state''), ws0] @
     lit_i ''Diff'' @ [ws0] @ lit_i ''(Ind'' @ [ws0, Item Once dash_class None, ws0] @
     lit_i ''Small):'' @ [ws0, dollar_opt, Item OneOrMore amount_class (Some ''diff''), ws0] @
     lit_i ''Individual:'' @ [ws0, dollar_opt,
      Item OneOrMore amount_class (Some ''individual''), ws0] @
     lit_i ''Small'' @ [ws0] @ lit_i ''Group:'' @ [ws0, dollar_opt,
      Item OneOrMore amount_class (Some ''small_group'')]"

definition simple_pattern :: "item list" where
  "simple_pattern =
     [Item OneOrMore not_comma (Some ''1'')] @ lit '','' @ [ws0,
      Item Once upper_az (Some ''2''), Item Once upper_az (Some ''2'')]"

definition number_pattern :: "item list" where
  "number_pattern =
     [dollar_opt, Item OneOrMore digit_or_comma (Some ''1''),
      Item Optional (\<lambda>x. x = 46) (Some ''1''), Item ZeroOrMore is_digit (Some ''1'')]"

subsection \<open>\<open>parse_tooltip\<close>\<close>

record tooltip =
  county :: ustr
  state :: ustr
  individual_premium :: "pyfloat option"
  small_group_premium :: "pyfloat option"
  difference :: "pyfloat option"

text \<open>
  \<open>numbers[-2]\<close>, \<open>numbers[-1]\<close> and \<open>numbers[0]\<close> are read under \<open>len(numbers) >= 2\<close>, so
  they are in range.
\<close>

definition parse_tooltip :: "ustr option \<Rightarrow> tooltip option" where
  "parse_tooltip text0 =
     (case text0 of
        None \<Rightarrow> None
      | Some raw \<Rightarrow>
          if raw = [] then None
          else
            let text = normalize_ws raw
            in (case search TOOLTIP_PATTERN text of
                  Some m \<Rightarrow>
                    Some \<lparr>county = strip (fst m ''county''),
                          state = strip (fst m ''state''),
                          individual_premium = parse_money (Some (fst m ''individual'')),
                          small_group_premium = parse_money (Some (fst m ''small_group'')),
                          difference = parse_money (Some (fst m ''diff''))\<rparr>
                | None \<Rightarrow>
                    (case search simple_pattern text of
                       Some simple \<Rightarrow>
                         let numbers = findall number_pattern text
                         in if 2 \<le> length numbers then
                              Some \<lparr>county = strip (fst simple ''1''),
                                    state = strip (fst simple ''2''),
                                    individual_premium =
                                      (if 2 \<le> length numbers
                                       then parse_money (Some (numbers ! (length numbers - 2)))
                                       else None),
                                    small_group_premium =
                                      (if 1 \<le> length numbers
                                       then parse_money (Some (numbers ! (length numbers - 1)))
                                       else None),
                                    difference =
                                      (if 3 \<le> length numbers
                                       then parse_money (Some (numbers ! 0))
                                       else None)\<rparr>
                            else None
                     | None \<Rightarrow> None)))"

subsection \<open>The scan loops and their deduplication\<close>

text \<open>
  The dictionary that \<open>parse_tooltip\<close> returns, once the scan has added \<open>year\<close>, \<open>age\<close>
  and \<open>metal\<close> to it.
\<close>

record scraped = tooltip +
  year :: int
  age :: int
  metal :: ustr

record scan_args =
  arg_year :: int
  arg_age :: int
  arg_metal :: ustr

text \<open>
  What one pass of a scan loop meets: a path whose bounding box is missing or degenerate
  (\<open>continue\<close>), a hover or read that raises (caught, \<open>continue\<close>), or the text that
  \<open>get_tooltip_text\<close> returns, which is \<open>None\<close> when no tooltip shows. The browser page is
  outside the program, so a scan is given the sequence of these readings in loop order.
\<close>

datatype probe = Skipped | Raised | Tooltip "ustr option"

definition sample_key :: "tooltip \<Rightarrow> ustr" where
  "sample_key dt = county dt @ ascii '', '' @ state dt"

definition annotate :: "scan_args \<Rightarrow> tooltip \<Rightarrow> scraped" where
  "annotate args dt =
     \<lparr>county = county dt, state = state dt,
      individual_premium = individual_premium dt,
      small_group_premium = small_group_premium dt,
      difference = difference dt,
      year = arg_year args, age = arg_age args, metal = arg_metal args\<rparr>"

text \<open>The state of a loop is the pair of \<open>results\<close> and \<open>seen\<close>.\<close>

definition scan_step :: "scan_args \<Rightarrow> scraped list \<times> ustr set \<Rightarrow> probe \<Rightarrow> scraped list \<times> ustr set" where
  "scan_step args st pr =
     (case pr of
        Skipped \<Rightarrow> st
      | Raised \<Rightarrow> st
      | Tooltip tooltip_text \<Rightarrow>
          (case tooltip_text of
             None \<Rightarrow> st
           | Some t \<Rightarrow>
               if t = [] then st
               else (case parse_tooltip (Some t) of
                       None \<Rightarrow> st
                     | Some dt \<Rightarrow>
                         let key = sample_key dt
                         in if key \<notin> snd st
                            then (fst st @ [annotate args dt], insert key (snd st))
                            else st)))"

definition scrape_svg_map :: "probe list \<Rightarrow> scan_args \<Rightarrow> scraped list" where
  "scrape_svg_map probes args = fst (foldl (scan_step args) ([], {}) probes)"

text \<open>The grid scan returns the empty list when the canvas has no bounding box.\<close>

definition scrape_canvas_map :: "bool \<Rightarrow> probe list \<Rightarrow> scan_args \<Rightarrow> scraped list" where
  "scrape_canvas_map has_box probes args =
     (if \<not> has_box then [] else fst (foldl (scan_step args) ([], {}) probes))"

subsection \<open>Choice of the scan in \<open>scrape_map\<close>\<close>

text \<open>
  \<open>scrape_map\<close> counts the SVG paths and the canvas elements of the page and runs one scan
  or both. The two scans are given as the results they return when run; the value is the
  list of the scans run, in order, and the results kept.
\<close>

datatype scan_method = SvgScan | CanvasScan

definition scrape_map :: "nat \<Rightarrow> nat \<Rightarrow> 'a list \<Rightarrow> 'a list \<Rightarrow> scan_method list \<times> 'a list" where
  "scrape_map svg_paths canvas_elements svg_results canvas_results =
     (if 100 < svg_paths then ([SvgScan], svg_results)
      else if 0 < canvas_elements then ([CanvasScan], canvas_results)
      else if length svg_results < 50 then ([SvgScan, CanvasScan], canvas_results)
      else ([SvgScan], svg_results))"

subsection \<open>\<open>write_csv\<close>\<close>

text \<open>
  A CSV file is modelled by its header and the rows given to the writer; the file system
  maps a path to the file written there.
\<close>

record 'r csv_file =
  header :: "string list"
  rows :: "'r list"

definition write_csv :: "scraped list \<Rightarrow> string \<Rightarrow> (string \<rightharpoonup> scraped csv_file) \<Rightarrow> (string \<rightharpoonup> scraped csv_file)" where
  "write_csv results output_path fs =
     (if results = [] then fs
      else fs(output_path \<mapsto>
             \<lparr>header = [''county'', ''state'', ''fips'', ''individual_premium'',
                        ''small_group_premium'', ''difference'', ''year'', ''age'', ''metal''],
              rows = sort_key (\<lambda>x. (state x, county x)) results\<rparr>))"

section \<open>The upstream rows and the exporters\<close>

text \<open>
  A row of the upstream JSON file: year (offset from 2000), age, metal level, state
  abbreviation, county name, FIPS code, and the three premiums, each a number or \<open>null\<close>.
\<close>

record raw_row =
  r_year :: int
  r_age :: int
  r_lvl :: ustr
  r_st :: ustr
  r_n :: ustr
  r_f :: ustr
  r_i :: "pyfloat option"
  r_s :: "pyfloat option"
  r_d :: "pyfloat option"

text \<open>
  \<open>str.capitalize\<close>: the first character in upper case, the others in lower case. The
  case mappings are those of the ASCII letters, which is what the metal levels of the
  feed consist of; other code points are left as they are.
\<close>

definition ascii_upper :: "nat \<Rightarrow> nat" where
  "ascii_upper c = (if 97 \<le> c \<and> c \<le> 122 then c - 32 else c)"

definition capitalize :: "ustr \<Rightarrow> ustr" where
  "capitalize w = (case w of [] \<Rightarrow> [] | c # cs \<Rightarrow> ascii_upper c # map ascii_lower cs)"

subsection \<open>\<open>export_state_data.py\<close>\<close>

definition STATE_NAMES :: "(ustr \<times> ustr) list" where
  "STATE_NAMES = map (\<lambda>(a, b). (ascii a, ascii b))
    [(''AL'', ''Alabama''), (''AK'', ''Alaska''), (''AZ'', ''Arizona''),
     (''AR'', ''Arkansas''), (''CA'', ''California''), (''CO'', ''Colorado''),
     (''CT'', ''Connecticut''), (''DE'', ''Delaware''), (''DC'', ''District of Columbia''),
     (''FL'', ''Florida''), (''GA'', ''Georgia''), (''HI'', ''Hawaii''),
     (''ID'', ''Idaho''), (''IL'', ''Illinois''), (''IN'', ''Indiana''),
     (''IA'', ''Iowa''), (''KS'', ''Kansas''), (''KY'', ''Kentucky''),
     (''LA'', ''Louisiana''), (''ME'', ''Maine''), (''MD'', ''Maryland''),
     (''MA'', ''Massachusetts''), (''MI'', ''Michigan''), (''MN'', ''Minnesota''),
     (''MS'', ''Mississippi''), (''MO'', ''Missouri''), (''MT'', ''Montana''),
     (''NE'', ''Nebraska''), (''NV'', ''Nevada''), (''NH'', ''New Hampshire''),
     (''NJ'', ''New Jersey''), (''NM'', ''New Mexico''), (''NY'', ''New York''),
     (''NC'', ''North Carolina''), (''ND'', ''North Dakota''), (''OH'', ''Ohio''),
     (''OK'', ''Oklahoma''), (''OR'', ''Oregon''), (''PA'', ''Pennsylvania''),
     (''RI'', ''Rhode Island''), (''SC'', ''South Carolina''), (''SD'', ''South Dakota''),
     (''TN'', ''Tennessee''), (''TX'', ''Texas''), (''UT'', ''Utah''),
     (''VT'', ''Vermont''), (''VA'', ''Virginia''), (''WA'', ''Washington''),
     (''WV'', ''West Virginia''), (''WI'', ''Wisconsin''), (''WY'', ''Wyoming''),
     (''PR'', ''Puerto Rico'')]"

text \<open>
  \<open>statistics.mean\<close> of a non-empty list of floats: the exact sum divided by the count,
  rounded once; with infinities or NaN among the values it is their float sum.
\<close>

definition py_mean :: "pyfloat list \<Rightarrow> pyfloat" where
  "py_mean vals =
     (if NaN \<in> set vals \<or> (Inf False \<in> set vals \<and> Inf True \<in> set vals) then NaN
      else if Inf False \<in> set vals then Inf False
      else if Inf True \<in> set vals then Inf True
      else round_double (sum_list (map (\<lambda>v. case v of Fin x \<Rightarrow> x | _ \<Rightarrow> 0) vals)
                         / of_nat (length vals)))"

text \<open>
  \<open>round(x, 2)\<close>: the exact value of the double rounded to two decimals, ties to even,
  then the nearest double to that decimal.
\<close>

definition py_round2 :: "pyfloat \<Rightarrow> pyfloat" where
  "py_round2 v = (case v of Fin x \<Rightarrow> round_double (of_int (round_half_even (x * 100)) / 100) | _ \<Rightarrow> v)"

record state_agg =
  state_abbr :: ustr
  state_name :: ustr
  a_age :: int
  metal_tier :: ustr
  individual_premium_avg :: "pyfloat option"
  small_group_premium_avg :: "pyfloat option"
  difference_avg :: "pyfloat option"
  county_count :: nat
  a_year :: int

type_synonym group_key = "ustr \<times> int \<times> ustr"

definition row_key :: "raw_row \<Rightarrow> group_key" where
  "row_key row = (r_st row, r_age row, r_lvl row)"

text \<open>
  \<open>groups[key].append(row)\<close> on a \<open>defaultdict(list)\<close>: a dictionary keeps its keys in the
  order of their first insertion, so the groups are an association list.
\<close>

definition group_append :: "(group_key \<times> raw_row list) list \<Rightarrow> raw_row \<Rightarrow> (group_key \<times> raw_row list) list" where
  "group_append groups row =
     (if row_key row \<in> set (map fst groups)
      then map (\<lambda>(k, rs). if k = row_key row then (k, rs @ [row]) else (k, rs)) groups
      else groups @ [(row_key row, [row])])"

definition field_vals :: "(raw_row \<Rightarrow> pyfloat option) \<Rightarrow> raw_row list \<Rightarrow> pyfloat list" where
  "field_vals fld rs = map (\<lambda>r. the (fld r)) (filter (\<lambda>r. fld r \<noteq> None) rs)"

definition mean2 :: "pyfloat list \<Rightarrow> pyfloat option" where
  "mean2 vals = (if vals = [] then None else Some (py_round2 (py_mean vals)))"

definition summarize :: "int \<Rightarrow> group_key \<Rightarrow> raw_row list \<Rightarrow> state_agg" where
  "summarize yr k rs =
     (case k of (st, ag, mt) \<Rightarrow>
        \<lparr>state_abbr = st,
         state_name = (case map_of STATE_NAMES st of Some nm \<Rightarrow> nm | None \<Rightarrow> st),
         a_age = ag,
         metal_tier = (if mt = [] then [] else capitalize mt),
         individual_premium_avg = mean2 (field_vals r_i rs),
         small_group_premium_avg = mean2 (field_vals r_s rs),
         difference_avg = mean2 (field_vals r_d rs),
         county_count = length rs,
         a_year = yr\<rparr>)"

definition aggregate_by_state :: "raw_row list \<Rightarrow> int \<Rightarrow> state_agg list" where
  "aggregate_by_state data yr =
     (let year_code = yr - 2000;
          year_data = filter (\<lambda>r. r_year r = year_code) data;
          groups = foldl group_append [] year_data
      in map (\<lambda>(k, rs). summarize yr k rs) groups)"

definition export_states_csv :: "state_agg list \<Rightarrow> string \<Rightarrow> (string \<rightharpoonup> state_agg csv_file) \<Rightarrow> (string \<rightharpoonup> state_agg csv_file) \<times> nat" where
  "export_states_csv data output_path fs =
     (if data = [] then (fs, 0)
      else let sorted_data = sort_key (\<lambda>x. (state_abbr x, a_age x, metal_tier x)) data
           in (fs(output_path \<mapsto>
                  \<lparr>header = [''state_abbr'', ''state_name'', ''individual_premium_avg'',
                             ''small_group_premium_avg'', ''difference_avg'', ''county_count'',
                             ''year'', ''age'', ''metal_tier''],
                   rows = sorted_data\<rparr>),
               length sorted_data))"

subsection \<open>\<open>export_county_data.py\<close>\<close>

definition FIPS_TO_STATE :: "(ustr \<times> ustr) list" where
  "FIPS_TO_STATE = map (\<lambda>(a, b). (ascii a, ascii b))
    [(''01'', ''Alabama''), (''02'', ''Alaska''), (''04'', ''Arizona''),
     (''05'', ''Arkansas''), (''06'', ''California''), (''08'', ''Colorado''),
     (''09'', ''Connecticut''), (''10'', ''Delaware''), (''11'', ''District of Columbia''),
     (''12'', ''Florida''), (''13'', ''Georgia''), (''15'', ''Hawaii''),
     (''16'', ''Idaho''), (''17'', ''Illinois''), (''18'', ''Indiana''),
     (''19'', ''Iowa''), (''20'', ''Kansas''), (''21'', ''Kentucky''),
     (''22'', ''Louisiana''), (''23'', ''Maine''), (''24'', ''Maryland''),
     (''25'', ''Massachusetts''), (''26'', ''Michigan''), (''27'', ''Minnesota''),
     (''28'', ''Mississippi''), (''29'', ''Missouri''), (''30'', ''Montana''),
     (''31'', ''Nebraska''), (''32'', ''Nevada''), (''33'', ''New Hampshire''),
     (''34'', ''New Jersey''), (''35'', ''New Mexico''), (''36'', ''New York''),
     (''37'', ''North Carolina''), (''38'', ''North Dakota''), (''39'', ''Ohio''),
     (''40'', ''Oklahoma''), (''41'', ''Oregon''), (''42'', ''Pennsylvania''),
     (''44'', ''Rhode Island''), (''45'', ''South Carolina''), (''46'', ''South Dakota''),
     (''47'', ''Tennessee''), (''48'', ''Texas''), (''49'', ''Utah''),
     (''50'', ''Vermont''), (''51'', ''Virginia''), (''53'', ''Washington''),
     (''54'', ''West Virginia''), (''55'', ''Wisconsin''), (''56'', ''Wyoming''),
     (''72'', ''Puerto Rico'')]"

record county_row =
  c_fips :: ustr
  c_county :: ustr
  c_state_abbr :: ustr
  c_state_name :: ustr
  c_individual_premium :: "pyfloat option"
  c_small_group_premium :: "pyfloat option"
  c_difference :: "pyfloat option"
  c_year :: int
  c_age :: int
  c_metal_tier :: ustr

definition county_row_of :: "raw_row \<Rightarrow> county_row" where
  "county_row_of row =
     (let fips = r_f row;
          state_fips = (if 2 \<le> length fips then take 2 fips else [])
      in \<lparr>c_fips = fips,
          c_county = r_n row,
          c_state_abbr = r_st row,
          c_state_name = (case map_of FIPS_TO_STATE state_fips of Some nm \<Rightarrow> nm | None \<Rightarrow> []),
          c_individual_premium = r_i row,
          c_small_group_premium = r_s row,
          c_difference = r_d row,
          c_year = 2000 + r_year row,
          c_age = r_age row,
          c_metal_tier = capitalize (r_lvl row)\<rparr>)"

definition export_counties_csv :: "raw_row list \<Rightarrow> string \<Rightarrow> (string \<rightharpoonup> county_row csv_file) \<Rightarrow> (string \<rightharpoonup> county_row csv_file) \<times> nat" where
  "export_counties_csv data output_path fs =
     (if data = [] then (fs, 0)
      else let sorted_data = sort_key (\<lambda>x. (r_st x, r_n x)) data
           in (fs(output_path \<mapsto>
                  \<lparr>header = [''fips'', ''county'', ''state_abbr'', ''state_name'',
                             ''individual_premium'', ''small_group_premium'', ''difference'',
                             ''year'', ''age'', ''metal_tier''],
                   rows = map county_row_of sorted_data\<rparr>),
               length sorted_data))"

section \<open>The automated verifier: \<open>auto_verify.py\<close>\<close>

text \<open>
  The dictionary that the verifier's own \<open>parse_tooltip\<close> returns for a tooltip of the
  live page.
\<close>

record web_data =
  w_county :: ustr
  w_state :: ustr
  w_difference :: "pyfloat option"
  w_individual :: "pyfloat option"
  w_small_group :: "pyfloat option"

text \<open>
  The truth value of a field: \<open>None\<close> and zero are false. The three kinds of line that
  raise the count of mismatches, each with the key it is printed for.
\<close>

definition truthy_field :: "pyfloat option \<Rightarrow> bool" where
  "truthy_field v = (case v of None \<Rightarrow> False | Some x \<Rightarrow> truthy x)"

datatype mismatch = MismatchIndividual ustr | MismatchSmallGroup ustr | NotFound ustr

definition tolerance :: pyfloat where
  "tolerance = round_double (1 / 100)"

definition field_mismatch :: "pyfloat option \<Rightarrow> pyfloat option \<Rightarrow> bool" where
  "field_mismatch web our =
     (if truthy_field web \<and> truthy_field our
      then fgt (fabs (fsub (the web) (the our))) tolerance
      else False)"

definition compare_record :: "ustr \<Rightarrow> web_data \<Rightarrow> raw_row option \<Rightarrow> mismatch list" where
  "compare_record key web our_record =
     (case our_record of
        Some our \<Rightarrow>
          (if field_mismatch (w_individual web) (r_i our) then [MismatchIndividual key] else []) @
          (if field_mismatch (w_small_group web) (r_s our) then [MismatchSmallGroup key] else [])
      | None \<Rightarrow> [NotFound key])"

text \<open>
  \<open>our_lookup\<close>: the rows of year 26, age 50 and level gold under the key
  \<open>"<n>, <st>"\<close>; a later row replaces an earlier one with the same key.
\<close>

definition our_key :: "raw_row \<Rightarrow> ustr" where
  "our_key r = r_n r @ ascii '', '' @ r_st r"

definition build_lookup :: "raw_row list \<Rightarrow> (ustr \<rightharpoonup> raw_row)" where
  "build_lookup our_data =
     foldl (\<lambda>m r. if r_year r = 26 \<and> r_age r = 50 \<and> r_lvl r = ascii ''gold''
                  then m(our_key r \<mapsto> r) else m) Map.empty our_data"

text \<open>
  The comparison loop of \<open>verify\<close>. \<open>found_counties\<close> is a dictionary, given as the list
  of its items, whose keys are distinct; the loop visits the first 15 items in the order
  of their keys. The value is the list of mismatches counted and the verdict
  \<open>mismatches == 0\<close>.
\<close>

definition verify_compare :: "(ustr \<times> web_data) list \<Rightarrow> (ustr \<rightharpoonup> raw_row) \<Rightarrow> mismatch list" where
  "verify_compare found_counties our_lookup =
     concat (map (\<lambda>(key, web). compare_record key web (our_lookup key))
                 (take 15 (sort_key fst found_counties)))"

definition verify :: "(ustr \<times> web_data) list \<Rightarrow> raw_row list \<Rightarrow> bool" where
  "verify found_counties our_data =
     (length (verify_compare found_counties (build_lookup our_data)) = 0)"

section \<open>Notions of the specification\<close>

text \<open>
  \<open>firsts f xs\<close> keeps, in order, the first element of \<open>xs\<close> for each value of \<open>f\<close>, and
  drops every later element with a value of \<open>f\<close> already met.
\<close>

fun firsts :: "('a \<Rightarrow> 'k) \<Rightarrow> 'a list \<Rightarrow> 'a list" where
  "firsts f [] = []"
| "firsts f (x # xs) = x # filter (\<lambda>y. f y \<noteq> f x) (firsts f xs)"

text \<open>The samples that the readings of a scan parse to, in the order of the readings.\<close>

fun sample_of :: "probe \<Rightarrow> tooltip option" where
  "sample_of Skipped = None"
| "sample_of Raised = None"
| "sample_of (Tooltip None) = None"
| "sample_of (Tooltip (Some t)) = parse_tooltip (Some t)"

definition samples_of :: "probe list \<Rightarrow> tooltip list" where
  "samples_of probes = List.map_filter sample_of probes"

definition county_state :: "tooltip \<Rightarrow> ustr \<times> ustr" where
  "county_state dt = (county dt, state dt)"

text \<open>
  A dollar amount as a tooltip writes it: an optional minus sign, the dollars in decimal
  with a comma before every group of three digits, a point and two digits of cents.
  \<open>amount_value\<close> is the number written.
\<close>

record amount =
  negative :: bool
  dollars :: nat
  cents :: nat

fun dec :: "nat \<Rightarrow> ustr" where
  "dec n = (if n < 10 then [48 + n] else dec (n div 10) @ [48 + n mod 10])"

declare dec.simps [simp del]

definition pad2 :: "nat \<Rightarrow> ustr" where
  "pad2 m = [48 + m div 10, 48 + m mod 10]"

definition pad3 :: "nat \<Rightarrow> ustr" where
  "pad3 m = [48 + m div 100, 48 + (m div 10) mod 10, 48 + m mod 10]"

fun grouped :: "nat \<Rightarrow> ustr" where
  "grouped n = (if n < 1000 then dec n else grouped (n div 1000) @ 44 # pad3 (n mod 1000))"

declare grouped.simps [simp del]

definition amount_text :: "amount \<Rightarrow> ustr" where
  "amount_text a =
     (if negative a then [45] else []) @ grouped (dollars a) @ 46 # pad2 (cents a)"

definition amount_value :: "amount \<Rightarrow> rat" where
  "amount_value a =
     (if negative a then - 1 else 1) * (of_nat (dollars a) + of_nat (cents a) / 100)"

text \<open>
  A tooltip in the strict format: the county name, a comma, the state code, and the three
  labelled amounts, separated by single spaces.
\<close>

definition strict_text :: "ustr \<Rightarrow> ustr \<Rightarrow> amount \<Rightarrow> amount \<Rightarrow> amount \<Rightarrow> ustr" where
  "strict_text cn st df ind sg =
     cn @ ascii '', '' @ st @ ascii '' Diff (Ind - Small): $'' @ amount_text df @
     ascii '' Individual: $'' @ amount_text ind @ ascii '' Small Group: $'' @ amount_text sg"

definition valid_county :: "ustr \<Rightarrow> bool" where
  "valid_county cn \<longleftrightarrow>
     cn \<noteq> [] \<and> 44 \<notin> set cn \<and> \<not> is_space (hd cn) \<and> \<not> is_space (last cn)"

definition valid_state :: "ustr \<Rightarrow> bool" where
  "valid_state st \<longleftrightarrow> length st = 2 \<and> (\<forall>x\<in>set st. 65 \<le> x \<and> x \<le> 90)"

section \<open>Example inputs\<close>

definition ex_key :: ustr where
  "ex_key = ascii ''Harris County, TX''"

definition ex_web :: "pyfloat option \<Rightarrow> pyfloat option \<Rightarrow> web_data" where
  "ex_web iv sv =
     \<lparr>w_county = ascii ''Harris County'', w_state = ascii ''TX'', w_difference = None,
      w_individual = iv, w_small_group = sv\<rparr>"

definition ex_row :: "pyfloat option \<Rightarrow> pyfloat option \<Rightarrow> raw_row" where
  "ex_row iv sv =
     \<lparr>r_year = 26, r_age = 50, r_lvl = ascii ''gold'', r_st = ascii ''TX'',
      r_n = ascii ''Harris County'', r_f = ascii ''48201'', r_i = iv, r_s = sv, r_d = None\<rparr>"

definition ex_data :: "raw_row list" where
  "ex_data =
     [\<lparr>r_year = 26, r_age = 50, r_lvl = ascii ''gold'', r_st = ascii ''TX'',
       r_n = ascii ''Harris County'', r_f = ascii ''48201'',
       r_i = Some (Fin 100), r_s = Some (Fin 200), r_d = None\<rparr>,
      \<lparr>r_year = 26, r_age = 50, r_lvl = ascii ''gold'', r_st = ascii ''TX'',
       r_n = ascii ''Travis County'', r_f = ascii ''48453'',
       r_i = None, r_s = Some (Fin 300), r_d = None\<rparr>]"

text \<open>The tooltip of the comment above \<open>TOOLTIP_PATTERN\<close>, on three lines.\<close>

definition ex_raw :: ustr where
  "ex_raw = ascii ''Shasta County, CA'' @ [10] @ ascii ''Diff (Ind - Small): $605.64'' @ [10] @
            ascii ''Individual: $1,414.50  Small Group: $808.86''"

definition ex_df :: amount where
  "ex_df = \<lparr>negative = False, dollars = 605, cents = 64\<rparr>"

definition ex_ind :: amount where
  "ex_ind = \<lparr>negative = False, dollars = 1414, cents = 50\<rparr>"

definition ex_sg :: amount where
  "ex_sg = \<lparr>negative = False, dollars = 808, cents = 86\<rparr>"

definition ex_args :: scan_args where
  "ex_args = \<lparr>arg_year = 2026, arg_age = 50, arg_metal = ascii ''gold''\<rparr>"

text \<open>
  The example tooltip of the specification on one line, with the en dash U+2013 between
  \<open>Ind\<close> and \<open>Small\<close>, with the ASCII hyphen, and with the minus sign U+2212 that the
  comment in \<open>auto_verify.py\<close> shows.
\<close>

definition tooltip_with :: "nat \<Rightarrow> ustr" where
  "tooltip_with dash =
     ascii ''Shasta County, CA Diff (Ind '' @ [dash] @
     ascii '' Small): $605.64 Individual: $1,414.50 Small Group: $808.86''"

definition en_dash_text :: ustr where
  "en_dash_text = tooltip_with 8211"

definition hyphen_text :: ustr where
  "hyphen_text = tooltip_with 45"

definition minus_text :: ustr where
  "minus_text = tooltip_with 8722"

section \<open>Rounding to a double\<close>

lemma bit_length_eq: "2 ^ k \<le> n \<Longrightarrow> n < 2 ^ Suc k \<Longrightarrow> bit_length n = Suc k"
proof (induction k arbitrary: n)
  case 0
  then have "n = 1" by simp
  then show ?case by (simp add: bit_length.simps)
next
  case (Suc k)
  from Suc.prems have a: "2 ^ k \<le> n div 2" and b: "n div 2 < 2 ^ Suc k" by auto
  from Suc.prems have "n \<noteq> 0" by auto
  then have "bit_length n = Suc (bit_length (n div 2))" by (subst bit_length.simps) simp
  with Suc.IH [OF a b] show ?case by simp
qed

lemma pow2_powi: "pow2 k = 2 powi k"
  by (simp add: pow2_def power_int_def inverse_eq_divide power_one_over)

lemma pow2_pos [simp]: "0 < pow2 k"
  by (simp add: pow2_powi)

lemma pow2_nz [simp]: "pow2 k \<noteq> 0"
  by (simp add: pow2_powi)

lemma nat_int_Suc: "nat (int n + 1) = Suc n"
  by linarith

lemma pow2_add: "pow2 (a + b) = pow2 a * pow2 b"
  by (simp add: pow2_powi power_int_add)

lemma pow2_nat: "pow2 (int n) = 2 ^ n"
  by (simp add: pow2_def)

lemma pow2_mono: "a \<le> b \<Longrightarrow> pow2 a \<le> pow2 b"
  by (simp add: pow2_powi power_int_increasing)

lemma pow2_less_mono: "a < b \<Longrightarrow> pow2 a < pow2 b"
  by (simp add: pow2_powi power_int_strict_increasing)

lemma round_half_even_near: "\<bar>z - of_int m\<bar> < 1 / 2 \<Longrightarrow> round_half_even z = m"
proof -
  assume a: "\<bar>z - of_int m\<bar> < 1 / 2"
  show ?thesis
  proof (cases "of_int m \<le> z")
    case True
    with a have "\<lfloor>z\<rfloor> = m" by (intro floor_unique) auto
    with a True show ?thesis by (simp add: round_half_even_def Let_def)
  next
    case False
    with a have f: "\<lfloor>z\<rfloor> = m - 1" by (intro floor_unique) auto
    with a False show ?thesis by (auto simp add: round_half_even_def Let_def)
  qed
qed

text \<open>\<open>ilog2\<close> finds the binade of a positive rational.\<close>

lemma ilog2_eq:
  assumes "pow2 e \<le> a" and "a < pow2 (e + 1)"
  shows "ilog2 a = e"
proof (cases "1 \<le> a")
  case True
  have "0 \<le> e"
  proof (rule ccontr)
    assume "\<not> 0 \<le> e"
    then have "pow2 (e + 1) \<le> pow2 0" by (intro pow2_mono) simp
    with assms(2) True show False by (simp add: pow2_def)
  qed
  then obtain k where k: "e = int k" by (metis nonneg_int_cases)
  from assms k have lo: "2 ^ k \<le> a" and hi: "a < 2 ^ Suc k"
    by (simp_all add: pow2_def nat_add_distrib)
  from lo have "(2::int) ^ k \<le> \<lfloor>a\<rfloor>" by (simp add: le_floor_iff)
  then have lo': "2 ^ k \<le> nat \<lfloor>a\<rfloor>" by (simp add: le_nat_iff)
  from hi have "\<lfloor>a\<rfloor> < (2::int) ^ Suc k" by (simp add: floor_less_iff)
  moreover have "0 \<le> \<lfloor>a\<rfloor>" using True by simp
  ultimately have hi': "nat \<lfloor>a\<rfloor> < 2 ^ Suc k" by (simp add: nat_less_iff)
  from bit_length_eq [OF lo' hi'] True k show ?thesis by (simp add: ilog2_def)
next
  case False
  have apos: "0 < a" using assms(1) pow2_pos [of e] by linarith
  have "e < 0"
  proof (rule ccontr)
    assume "\<not> e < 0"
    then have "pow2 0 \<le> pow2 e" by (intro pow2_mono) simp
    with assms(1) False show False by (simp add: pow2_def)
  qed
  then obtain j where j: "e = - int (Suc j)"
    by (metis add.inverse_inverse neg_0_less_iff_less zero_less_imp_eq_int Suc_pred' of_nat_0_less_iff)
  have "pow2 e = 1 / 2 ^ Suc j" using j by (simp add: pow2_def nat_int_Suc)
  with assms(1) have lo: "1 / 2 ^ Suc j \<le> a" by simp
  have "pow2 (e + 1) = 1 / 2 ^ j" using j by (cases j) (simp_all add: pow2_def nat_int_Suc)
  with assms(2) have hi: "a < 1 / 2 ^ j" by simp
  from lo apos have b_hi: "1 / a \<le> 2 ^ Suc j"
    by (simp add: field_simps)
  from hi apos have b_lo: "2 ^ j < 1 / a"
    by (simp add: field_simps)
  from b_hi have ch: "\<lceil>1 / a\<rceil> \<le> (2::int) ^ Suc j" by (simp add: ceiling_le_iff)
  from b_lo have cl: "(2::int) ^ j < \<lceil>1 / a\<rceil>" by (simp add: less_ceiling_iff)
  have p: "(0::int) < 2 ^ j" by simp
  have i1: "int (2 ^ j) = 2 ^ j" and i2: "int (2 ^ Suc j) = 2 ^ Suc j" by simp_all
  from cl p have c_lo: "2 ^ j \<le> nat (\<lceil>1 / a\<rceil> - 1)"
    unfolding i1 [symmetric] by linarith
  from ch cl p have c_hi: "nat (\<lceil>1 / a\<rceil> - 1) < 2 ^ Suc j"
    unfolding i1 [symmetric] i2 [symmetric] by linarith
  from bit_length_eq [OF c_lo c_hi] False j show ?thesis by (simp add: ilog2_def)
qed

text \<open>
  A value of \<open>round_double\<close> is checked rather than computed: given the binade \<open>e\<close> of
  \<open>x\<close> and the integer \<open>m\<close> nearest to \<open>x\<close> in units of \<open>2^(e-52)\<close>, the double is
  \<open>m * 2^(e-52)\<close>.
\<close>

lemma round_double_cert:
  assumes "x \<noteq> 0" and "pow2 e \<le> \<bar>x\<bar>" and "\<bar>x\<bar> < pow2 (e + 1)"
      and "- 1022 \<le> e" and "e < 1023"
      and "\<bar>\<bar>x\<bar> / pow2 (e - 52) - of_int m\<bar> < 1 / 2"
  shows "round_double x =
           Fin (if x < 0 then - (of_int m * pow2 (e - 52)) else of_int m * pow2 (e - 52))"
proof -
  have il: "ilog2 \<bar>x\<bar> = e" using assms(2,3) by (rule ilog2_eq)
  have r: "round_half_even (\<bar>x\<bar> / pow2 (e - 52)) = m" using assms(6) by (rule round_half_even_near)
  have "\<bar>x\<bar> / pow2 (e - 52) < pow2 (e + 1) / pow2 (e - 52)"
    using assms(3) by (simp add: divide_strict_right_mono)
  also have "pow2 (e + 1) / pow2 (e - 52) = pow2 53"
  proof -
    have "e + 1 = 53 + (e - 52)" by simp
    then have "pow2 (e + 1) = pow2 53 * pow2 (e - 52)" by (simp only: pow2_add)
    then show ?thesis by simp
  qed
  finally have "of_int m < pow2 53 + 1 / 2" using assms(6) by linarith
  then have "rat_of_int m < of_int (2 ^ 53) + 1 / 2" by (simp add: pow2_def)
  then have "rat_of_int m < of_int (2 ^ 53 + 1)" by simp
  then have "m < 2 ^ 53 + 1" by (simp only: of_int_less_iff)
  then have "m \<le> 2 ^ 53" by simp
  then have "rat_of_int m \<le> of_int (2 ^ 53)" by (simp only: of_int_le_iff)
  then have "rat_of_int m \<le> pow2 53" by (simp add: pow2_def)
  then have "of_int m * pow2 (e - 52) \<le> pow2 53 * pow2 (e - 52)"
    by (simp add: mult_right_mono less_imp_le)
  also have "\<dots> = pow2 (53 + (e - 52))" by (simp only: pow2_add)
  also have "\<dots> = pow2 (e + 1)" by (simp add: add.commute)
  also have "\<dots> < pow2 1024" using assms(5) by (intro pow2_less_mono) simp
  finally have nov: "\<not> pow2 1024 \<le> of_int m * pow2 (e - 52)" by simp
  have m1: "max (ilog2 \<bar>x\<bar>) (- 1022) = e" using il assms(4) by simp
  show ?thesis
    unfolding round_double_def Let_def m1 r using assms(1) nov by simp
qed

text \<open>Below \<open>2^40\<close> a double is within \<open>2^-13\<close> of the number it rounds.\<close>

lemma bit_length_le: "n < 2 ^ k \<Longrightarrow> bit_length n \<le> k"
proof (induction k arbitrary: n)
  case 0
  then show ?case by (simp add: bit_length.simps)
next
  case (Suc k)
  show ?case
  proof (cases "n = 0")
    case True
    then show ?thesis by (simp add: bit_length.simps)
  next
    case False
    from Suc.prems have "n div 2 < 2 ^ k" by auto
    from Suc.IH [OF this] False show ?thesis by (subst bit_length.simps) simp
  qed
qed

lemma ilog2_le:
  assumes "a < 2 ^ k"
  shows "ilog2 a \<le> int k"
proof (cases "1 \<le> a")
  case True
  from assms have "\<lfloor>a\<rfloor> < (2::int) ^ k" by (simp add: floor_less_iff)
  moreover have "0 \<le> \<lfloor>a\<rfloor>" using True by simp
  ultimately have "nat \<lfloor>a\<rfloor> < 2 ^ k" by (simp add: nat_less_iff)
  from bit_length_le [OF this] True show ?thesis by (simp add: ilog2_def)
next
  case False
  then show ?thesis by (simp add: ilog2_def)
qed

lemma round_half_even_err: "\<bar>of_int (round_half_even z) - z\<bar> \<le> 1 / 2"
proof -
  have "of_int \<lfloor>z\<rfloor> \<le> z" "z < of_int \<lfloor>z\<rfloor> + 1" by linarith+
  then show ?thesis by (auto simp: round_half_even_def Let_def)
qed

lemma round_double_close:
  assumes "\<bar>x\<bar> < 2 ^ 40"
  shows "\<exists>y. round_double x = Fin y \<and> \<bar>y - x\<bar> \<le> 1 / 2 ^ 13"
proof (cases "x = 0")
  case True
  then show ?thesis by (simp add: round_double_def)
next
  case False
  define a where "a = \<bar>x\<bar>"
  define e where "e = max (ilog2 a) (- 1022)"
  define q where "q = pow2 (e - 52)"
  define y where "y = of_int (round_half_even (a / q)) * q"
  have qpos: "0 < q" by (simp add: q_def)
  have "ilog2 a \<le> 40" using ilog2_le [of a 40] assms by (simp add: a_def)
  then have "e \<le> 40" by (simp add: e_def)
  then have "pow2 (e - 52) \<le> pow2 (- 12)" by (intro pow2_mono) simp
  then have q12: "q \<le> 1 / 2 ^ 12" by (simp add: q_def pow2_def)
  have "\<bar>of_int (round_half_even (a / q)) - a / q\<bar> \<le> 1 / 2" by (rule round_half_even_err)
  then have "\<bar>of_int (round_half_even (a / q)) - a / q\<bar> * q \<le> 1 / 2 * q"
    using qpos by (intro mult_right_mono) simp_all
  moreover have "\<bar>of_int (round_half_even (a / q)) - a / q\<bar> * q = \<bar>y - a\<bar>"
  proof -
    have "\<bar>of_int (round_half_even (a / q)) - a / q\<bar> * q =
          \<bar>(of_int (round_half_even (a / q)) - a / q) * q\<bar>"
      using qpos by (simp add: abs_mult)
    also have "(of_int (round_half_even (a / q)) - a / q) * q = y - a"
      using qpos by (simp add: y_def field_simps)
    finally show ?thesis .
  qed
  ultimately have err: "\<bar>y - a\<bar> \<le> 1 / 2 ^ 13" using q12 by simp
  have a40: "a < 2 ^ 40" using assms by (simp add: a_def)
  have e1: "y - a \<le> \<bar>y - a\<bar>" by simp
  have "(1::rat) / 2 ^ 13 \<le> 1" by simp
  with err e1 have "y \<le> a + 1" by linarith
  with a40 have "y < 2 ^ 40 + 1" by linarith
  also have "(2::rat) ^ 40 + 1 < pow2 1024" by (simp add: pow2_def)
  finally have nov: "\<not> pow2 1024 \<le> y" by simp
  have rd: "round_double x = Fin (if x < 0 then - y else y)"
    using False nov by (simp add: round_double_def Let_def a_def [symmetric] e_def [symmetric]
        q_def [symmetric] y_def [symmetric])
  have "\<bar>(if x < 0 then - y else y) - x\<bar> = \<bar>y - a\<bar>" by (auto simp: a_def)
  with err rd show ?thesis by simp
qed

section \<open>First occurrences\<close>

lemma firsts_snoc:
  "firsts f (xs @ [x]) = (if f x \<in> f ` set xs then firsts f xs else firsts f xs @ [x])"
  by (induction xs) auto

lemma set_firsts_image: "f ` set (firsts f xs) = f ` set xs"
proof (induction xs)
  case Nil
  show ?case by simp
next
  case (Cons a xs)
  have "f ` set (firsts f (a # xs)) = insert (f a) (f ` set (firsts f xs))" by force
  with Cons show ?case by simp
qed

lemma distinct_map_filter': "distinct (map f xs) \<Longrightarrow> distinct (map f (filter P xs))"
  by (induction xs) auto

lemma distinct_firsts: "distinct (map f (firsts f xs))"
proof (induction xs)
  case Nil
  show ?case by simp
next
  case (Cons x xs)
  then show ?case by (auto simp: distinct_map_filter')
qed

lemma firsts_subseq: "subseq (firsts f xs) xs"
proof (induction xs)
  case Nil
  show ?case by simp
next
  case (Cons x xs)
  have "subseq (filter (\<lambda>y. f y \<noteq> f x) (firsts f xs)) (firsts f xs)" by simp
  from this Cons have "subseq (filter (\<lambda>y. f y \<noteq> f x) (firsts f xs)) xs"
    by (rule subseq_order.trans)
  then show ?case by simp
qed

section \<open>Captured groups\<close>

text \<open>What a group captures consists of characters of the classes of its items.\<close>

definition group_in :: "string \<Rightarrow> (nat \<Rightarrow> bool) \<Rightarrow> item list \<Rightarrow> bool" where
  "group_in g P p \<longleftrightarrow> (\<forall>q c. Item q c (Some g) \<in> set p \<longrightarrow> (\<forall>x. c x \<longrightarrow> P x))"

lemma group_in_Cons:
  "group_in g P (Item q c h # r) \<longleftrightarrow> (h = Some g \<longrightarrow> (\<forall>x. c x \<longrightarrow> P x)) \<and> group_in g P r"
  by (auto simp: group_in_def)

lemma group_in_same_class:
  "group_in g P (Item q c h # r) \<Longrightarrow> group_in g P (Item q' c h # r)"
  by (auto simp: group_in_def)

lemma push_group:
  "\<forall>x\<in>set (fst m g). P x \<Longrightarrow> (h = Some g \<longrightarrow> P x) \<Longrightarrow> \<forall>y\<in>set (fst (push h x m) g). P y"
  by (cases h) (auto simp: push_def)

lemma rmatch_group_in:
  "rmatch p s = Some m \<Longrightarrow> group_in g P p \<Longrightarrow> \<forall>x\<in>set (fst m g). P x"
proof (induction p s arbitrary: m rule: rmatch.induct)
  case (1 s)
  then show ?case by auto
next
  case (2 c g' r)
  then show ?case by simp
next
  case (3 c g' r x xs)
  from "3.prems" obtain m' where c: "c x" and m': "rmatch r xs = Some m'" and m: "m = push g' x m'"
    by (auto split: if_splits)
  from "3.prems"(2) have gr: "group_in g P r" and px: "g' = Some g \<longrightarrow> P x"
    using c by (auto simp: group_in_Cons)
  from "3.IH" [OF c m' gr] px show ?case unfolding m by (rule push_group)
next
  case (4 c g' r)
  then show ?case by (auto simp: group_in_Cons)
next
  case (5 c g' r x xs)
  from "5.prems"(2) have gr: "group_in g P r" by (simp add: group_in_Cons)
  show ?case
  proof (cases "c x")
    case True
    show ?thesis
    proof (cases "rmatch r xs")
      case None
      with True "5.prems" have "rmatch r (x # xs) = Some m" by simp
      from "5.IH"(2) [OF True None this gr] show ?thesis .
    next
      case (Some m')
      with True "5.prems" have m: "m = push g' x m'" by simp
      from "5.prems"(2) True have px: "g' = Some g \<longrightarrow> P x" by (auto simp: group_in_Cons)
      from "5.IH"(1) [OF True Some gr] px show ?thesis unfolding m by (rule push_group)
    qed
  next
    case False
    with "5.prems" have "rmatch r (x # xs) = Some m" by simp
    from "5.IH"(3) [OF False this gr] show ?thesis .
  qed
next
  case (6 c g' r)
  then show ?case by (auto simp: group_in_Cons)
next
  case (7 c g' r x xs)
  from "7.prems"(2) have gr: "group_in g P r" by (simp add: group_in_Cons)
  show ?case
  proof (cases "c x")
    case True
    show ?thesis
    proof (cases "rmatch (Item ZeroOrMore c g' # r) xs")
      case None
      with True "7.prems" have "rmatch r (x # xs) = Some m" by simp
      from "7.IH"(2) [OF True None this gr] show ?thesis .
    next
      case (Some m')
      with True "7.prems" have m: "m = push g' x m'" by simp
      from "7.prems"(2) True have px: "g' = Some g \<longrightarrow> P x" by (auto simp: group_in_Cons)
      from "7.IH"(1) [OF True Some "7.prems"(2)] px show ?thesis unfolding m by (rule push_group)
    qed
  next
    case False
    with "7.prems" have "rmatch r (x # xs) = Some m" by simp
    from "7.IH"(3) [OF False this gr] show ?thesis .
  qed
next
  case (8 c g' r)
  then show ?case by simp
next
  case (9 c g' r x xs)
  from "9.prems" obtain m' where c: "c x"
    and m': "rmatch (Item ZeroOrMore c g' # r) xs = Some m'" and m: "m = push g' x m'"
    by (auto split: if_splits)
  from "9.prems"(2) have gr: "group_in g P (Item ZeroOrMore c g' # r)"
    by (rule group_in_same_class)
  from "9.prems"(2) c have px: "g' = Some g \<longrightarrow> P x" by (auto simp: group_in_Cons)
  from "9.IH" [OF c m' gr] px show ?case unfolding m by (rule push_group)
qed

lemma search_group_in:
  "search p s = Some m \<Longrightarrow> group_in g P p \<Longrightarrow> \<forall>x\<in>set (fst m g). P x"
proof (induction s)
  case Nil
  then show ?case using rmatch_group_in by simp
next
  case (Cons x xs)
  show ?case
  proof (cases "rmatch p (x # xs)")
    case None
    with Cons.prems have "search p xs = Some m" by simp
    from Cons.IH [OF this Cons.prems(2)] show ?thesis .
  next
    case (Some m')
    with Cons.prems have "rmatch p (x # xs) = Some m" by simp
    from rmatch_group_in [OF this Cons.prems(2)] show ?thesis .
  qed
qed

section \<open>Reading amounts\<close>

lemma digits_value_append:
  "digits_value acc (xs @ ys) = digits_value (digits_value acc xs) ys"
  by (induction xs arbitrary: acc) auto

lemma digits_value_acc:
  "digits_value acc xs = acc * 10 ^ length xs + digits_value 0 xs"
proof (induction xs arbitrary: acc)
  case Nil
  show ?case by simp
next
  case (Cons x xs)
  have "digits_value acc (x # xs) = digits_value (10 * acc + (x - 48)) xs" by simp
  also have "\<dots> = (10 * acc + (x - 48)) * 10 ^ length xs + digits_value 0 xs" by (rule Cons.IH)
  also have "digits_value 0 (x # xs) = (x - 48) * 10 ^ length xs + digits_value 0 xs"
    using Cons.IH [of "x - 48"] by simp
  ultimately show ?case by (simp add: algebra_simps)
qed

lemma dec_digits: "\<forall>x\<in>set (dec n). is_ascii_digit x"
proof (induction n rule: dec.induct)
  case (1 n)
  show ?case
  proof (cases "n < 10")
    case True
    then show ?thesis by (subst dec.simps) (simp add: is_ascii_digit_def)
  next
    case False
    have "n mod 10 < 10" by simp
    then have "is_ascii_digit (48 + n mod 10)" by (simp add: is_ascii_digit_def)
    with 1 False show ?thesis by (subst dec.simps) auto
  qed
qed

lemma dec_nonempty: "dec n \<noteq> []"
  by (subst dec.simps) simp

lemma dec_value: "digits_value 0 (dec n) = n"
proof (induction n rule: dec.induct)
  case (1 n)
  show ?case
  proof (cases "n < 10")
    case True
    then show ?thesis by (subst dec.simps) simp
  next
    case False
    with 1 have "digits_value 0 (dec (n div 10)) = n div 10" by simp
    with False show ?thesis
      by (subst dec.simps) (simp add: digits_value_append)
  qed
qed

lemma pad3_digits: "m < 1000 \<Longrightarrow> \<forall>x\<in>set (pad3 m). is_ascii_digit x"
  by (auto simp: pad3_def is_ascii_digit_def less_Suc_eq_le div_le_mono intro: less_le_trans)

lemma three_digits: "10 * (10 * (m div 100) + (m div 10) mod 10) + m mod 10 = (m::nat)"
proof -
  have "m div 100 = (m div 10) div 10" by (simp add: div_mult2_eq)
  then have "10 * (m div 100) + (m div 10) mod 10 = m div 10" by simp
  then show ?thesis by simp
qed

lemma pad3_value: "digits_value 0 (pad3 m) = m"
proof -
  have "digits_value 0 (pad3 m) = 10 * (10 * (m div 100) + (m div 10) mod 10) + m mod 10"
    by (simp add: pad3_def)
  also have "\<dots> = m" by (rule three_digits)
  finally show ?thesis .
qed

lemma pad2_digits: "m < 100 \<Longrightarrow> \<forall>x\<in>set (pad2 m). is_ascii_digit x"
  by (auto simp: pad2_def is_ascii_digit_def less_Suc_eq_le div_le_mono intro: less_le_trans)

lemma pad2_value: "digits_value 0 (pad2 m) = m"
  by (simp add: pad2_def)

lemma grouped_chars: "\<forall>x\<in>set (grouped n). is_ascii_digit x \<or> x = 44"
proof (induction n rule: grouped.induct)
  case (1 n)
  show ?case
  proof (cases "n < 1000")
    case True
    then show ?thesis using dec_digits [of n] by (subst grouped.simps) auto
  next
    case False
    have "n mod 1000 < 1000" by simp
    from pad3_digits [OF this] 1 False show ?thesis by (subst grouped.simps) auto
  qed
qed

lemma grouped_nonempty: "grouped n \<noteq> []"
  by (subst grouped.simps) (simp add: dec_nonempty)

lemma filter_digits: "\<forall>x\<in>set xs. is_ascii_digit x \<Longrightarrow> filter (\<lambda>x. x \<noteq> 44) xs = xs"
  by (induction xs) (auto simp: is_ascii_digit_def)

lemma grouped_value: "digits_value 0 (filter (\<lambda>x. x \<noteq> 44) (grouped n)) = n"
proof (induction n rule: grouped.induct)
  case (1 n)
  show ?case
  proof (cases "n < 1000")
    case True
    then show ?thesis
      using dec_digits [of n] by (subst grouped.simps) (simp add: filter_digits dec_value)
  next
    case False
    have m: "n mod 1000 < 1000" by simp
    have l: "length (pad3 (n mod 1000)) = 3" by (simp add: pad3_def)
    from 1 False have ih: "digits_value 0 (filter (\<lambda>x. x \<noteq> 44) (grouped (n div 1000))) = n div 1000"
      by simp
    have "digits_value 0 (filter (\<lambda>x. x \<noteq> 44) (grouped n)) =
          digits_value (n div 1000) (pad3 (n mod 1000))"
      using False ih pad3_digits [OF m]
      by (subst grouped.simps) (simp add: digits_value_append filter_digits)
    also have "\<dots> = (n div 1000) * 10 ^ 3 + n mod 1000"
      by (subst digits_value_acc) (simp add: l pad3_value)
    also have "\<dots> = n" by simp
    finally show ?thesis .
  qed
qed

lemma grouped_filter_digits: "\<forall>x\<in>set (filter (\<lambda>x. x \<noteq> 44) (grouped n)). is_ascii_digit x"
  using grouped_chars [of n] by auto

lemma grouped_filter_nonempty: "filter (\<lambda>x. x \<noteq> 44) (grouped n) \<noteq> []"
proof -
  have "\<exists>x\<in>set (grouped n). x \<noteq> 44"
  proof (induction n rule: grouped.induct)
    case (1 n)
    show ?case
    proof (cases "n < 1000")
      case True
      obtain x where x: "x \<in> set (dec n)" using dec_nonempty [of n] by (cases "dec n") auto
      with dec_digits [of n] have "x \<noteq> 44" by (auto simp: is_ascii_digit_def)
      with x True show ?thesis by (subst grouped.simps) auto
    next
      case False
      with 1 show ?thesis by (subst grouped.simps) auto
    qed
  qed
  then show ?thesis by (auto simp: filter_empty_conv)
qed

lemma to_ascii_decimal_id: "\<forall>x\<in>set s. x < 127 \<Longrightarrow> to_ascii_decimal s = s"
  by (induction s) auto

lemma dropWhile_hd: "s \<noteq> [] \<Longrightarrow> \<not> P (hd s) \<Longrightarrow> dropWhile P s = s"
  by (cases s) auto

lemma strip_ascii_id:
  "s \<noteq> [] \<Longrightarrow> \<not> is_ascii_space (hd s) \<Longrightarrow> \<not> is_ascii_space (last s) \<Longrightarrow> strip_ascii s = s"
  by (simp add: strip_ascii_def dropWhile_hd hd_rev)

lemma strip_id:
  "s \<noteq> [] \<Longrightarrow> \<not> is_space (hd s) \<Longrightarrow> \<not> is_space (last s) \<Longrightarrow> strip s = s"
  by (simp add: strip_def dropWhile_hd hd_rev)

lemma takeWhile_run: "\<forall>x\<in>set xs. P x \<Longrightarrow> \<not> P y \<Longrightarrow> takeWhile P (xs @ y # ys) = xs"
  by (induction xs) auto

lemma dropWhile_run: "\<forall>x\<in>set xs. P x \<Longrightarrow> \<not> P y \<Longrightarrow> dropWhile P (xs @ y # ys) = y # ys"
  by (induction xs) auto

lemma takeWhile_all: "\<forall>x\<in>set xs. P x \<Longrightarrow> takeWhile P xs = xs"
  by (induction xs) auto

lemma dropWhile_all: "\<forall>x\<in>set xs. P x \<Longrightarrow> dropWhile P xs = []"
  by (induction xs) auto

lemma parse_decimal_signed:
  assumes ip: "\<forall>x\<in>set ip. is_ascii_digit x" and ne: "ip \<noteq> []"
      and fp: "\<forall>x\<in>set fp. is_ascii_digit x"
  shows "parse_decimal ((if neg then [45] else []) @ ip @ 46 # fp) =
           Inr (round_double ((if neg then - 1 else 1) *
                  (of_nat (digits_value 0 (ip @ fp)) * pow10 (- int (length fp)))))"
proof -
  have nd: "\<not> is_ascii_digit 46" by (simp add: is_ascii_digit_def)
  from ne obtain c cs where c: "ip = c # cs" by (cases ip) auto
  with ip have "is_ascii_digit c" by simp
  then have c45: "c \<noteq> 45" and c43: "c \<noteq> 43" by (auto simp: is_ascii_digit_def)
  have sp: "split_sign ((if neg then [45] else []) @ ip @ 46 # fp) = (neg, ip @ 46 # fp)"
    using c c45 c43 by (simp add: split_sign_def)
  have tw: "takeWhile is_ascii_digit (ip @ 46 # fp) = ip" using ip nd by (rule takeWhile_run)
  have dw: "dropWhile is_ascii_digit (ip @ 46 # fp) = 46 # fp" using ip nd by (rule dropWhile_run)
  have se: "split_exponent [] = (0, [])" by (simp add: split_exponent_def)
  show ?thesis
    unfolding parse_decimal_def sp
    by (simp add: tw dw takeWhile_all [OF fp] dropWhile_all [OF fp] ne se)
qed

lemma py_float_signed:
  assumes ip: "\<forall>x\<in>set ip. is_ascii_digit x" and ne: "ip \<noteq> []"
      and fp: "\<forall>x\<in>set fp. is_ascii_digit x"
  shows "py_float ((if neg then [45] else []) @ ip @ 46 # fp) =
           Inr (round_double ((if neg then - 1 else 1) *
                  (of_nat (digits_value 0 (ip @ fp)) * pow10 (- int (length fp)))))"
proof -
  let ?s = "(if neg then [45] else []) @ ip @ 46 # fp"
  have ch: "\<forall>x\<in>set ?s. x = 45 \<or> x = 46 \<or> is_ascii_digit x" using ip fp by auto
  have imp: "x < 127 \<and> x \<noteq> 95 \<and> \<not> is_ascii_space x"
    if "x = 45 \<or> x = 46 \<or> is_ascii_digit x" for x
    using that by (auto simp: is_ascii_digit_def is_ascii_space_def)
  from ch imp have lt: "\<forall>x\<in>set ?s. x < 127" by blast
  from ch imp have us: "95 \<notin> set ?s" by blast
  have s_ne: "?s \<noteq> []" by simp
  have "hd ?s \<in> set ?s" using s_ne by (rule hd_in_set)
  with ch imp have h: "\<not> is_ascii_space (hd ?s)" by blast
  have "last ?s \<in> set ?s" using s_ne by (rule last_in_set)
  with ch imp have l: "\<not> is_ascii_space (last ?s)" by blast
  have "py_float ?s = parse_decimal ?s"
    unfolding py_float_def to_ascii_decimal_id [OF lt] Let_def
    using us by (simp only: if_False strip_ascii_id [OF s_ne h l])
  then show ?thesis using parse_decimal_signed [OF ip ne fp, of neg] by simp
qed

lemma digit_not_space: "is_ascii_digit x \<Longrightarrow> \<not> is_space x"
  by (auto simp: is_ascii_digit_def is_space_def)

lemma parse_money_decimal:
  assumes v: "remove_char 36 (remove_char 44 v) = (if neg then [45] else []) @ ip @ 46 # fp"
      and ip: "\<forall>x\<in>set ip. is_ascii_digit x" and ne: "ip \<noteq> []"
      and fp: "\<forall>x\<in>set fp. is_ascii_digit x"
  shows "parse_money (Some v) =
           Some (round_double ((if neg then - 1 else 1) *
                   (of_nat (digits_value 0 (ip @ fp)) * pow10 (- int (length fp)))))"
proof -
  let ?s = "(if neg then [45] else []) @ ip @ 46 # fp"
  have vne: "v \<noteq> []" using v by (auto simp: remove_char_def)
  have ch: "\<forall>x\<in>set ?s. x = 45 \<or> x = 46 \<or> is_ascii_digit x" using ip fp by auto
  have imp: "\<not> is_space x" if "x = 45 \<or> x = 46 \<or> is_ascii_digit x" for x
    using that by (auto simp: is_ascii_digit_def is_space_def)
  have s_ne: "?s \<noteq> []" by simp
  have "hd ?s \<in> set ?s" using s_ne by (rule hd_in_set)
  with ch imp have h: "\<not> is_space (hd ?s)" by blast
  have "last ?s \<in> set ?s" using s_ne by (rule last_in_set)
  with ch imp have l: "\<not> is_space (last ?s)" by blast
  have cl: "strip (remove_char 36 (remove_char 44 v)) = ?s"
    by (simp only: v strip_id [OF s_ne h l])
  have "parse_money (Some v) =
      (case py_float (strip (remove_char 36 (remove_char 44 v))) of
         Inr x \<Rightarrow> Some x | Inl ValueError \<Rightarrow> None)"
    using vne by (simp add: parse_money_def)
  then show ?thesis unfolding cl py_float_signed [OF ip ne fp] by simp
qed

lemma remove_amount_text:
  "remove_char 36 (remove_char 44 (amount_text a)) =
     (if negative a then [45] else []) @ filter (\<lambda>x. x \<noteq> 44) (grouped (dollars a)) @
       46 # pad2 (cents a)"
  if "cents a < 100"
proof -
  have p: "\<forall>x\<in>set (pad2 (cents a)). is_ascii_digit x" using that by (rule pad2_digits)
  have f1: "filter (\<lambda>x. x \<noteq> 44) (pad2 (cents a)) = pad2 (cents a)"
    using p by (rule filter_digits)
  have f2: "filter (\<lambda>x. x \<noteq> 36) xs = xs" if "\<forall>x\<in>set xs. is_ascii_digit x" for xs :: ustr
    using that by (induction xs) (auto simp: is_ascii_digit_def)
  have "\<forall>x\<in>set (filter (\<lambda>x. x \<noteq> 44) (grouped (dollars a))). is_ascii_digit x"
    by (rule grouped_filter_digits)
  from f2 [OF this] f2 [OF p] f1 show ?thesis
    by (simp add: amount_text_def remove_char_def)
qed

lemma amount_digits_value:
  "of_nat (digits_value 0 (filter (\<lambda>x. x \<noteq> 44) (grouped (dollars a)) @ pad2 (cents a))) *
     pow10 (- int (length (pad2 (cents a)))) =
   (of_nat (dollars a) + of_nat (cents a) / 100 :: rat)"
proof -
  have "digits_value 0 (filter (\<lambda>x. x \<noteq> 44) (grouped (dollars a)) @ pad2 (cents a)) =
        dollars a * 100 + cents a"
    by (simp add: digits_value_append grouped_value)
       (subst digits_value_acc, simp add: pad2_value, simp add: pad2_def)
  moreover have "pow10 (- int (length (pad2 (cents a)))) = 1 / 100"
    by (simp add: pad2_def pow10_def)
  ultimately show ?thesis by (simp add: field_simps)
qed

lemma parse_money_amount:
  assumes "cents a < 100"
  shows "parse_money (Some (amount_text a)) = Some (round_double (amount_value a))"
proof -
  note r = remove_amount_text [OF assms]
  have "parse_money (Some (amount_text a)) =
      Some (round_double ((if negative a then - 1 else 1) *
         (of_nat (digits_value 0 (filter (\<lambda>x. x \<noteq> 44) (grouped (dollars a)) @ pad2 (cents a))) *
            pow10 (- int (length (pad2 (cents a)))))))"
    using r grouped_filter_digits grouped_filter_nonempty pad2_digits [OF assms]
    by (rule parse_money_decimal)
  then show ?thesis unfolding amount_digits_value amount_value_def .
qed

lemma parse_money_dollar_amount:
  assumes "cents a < 100"
  shows "parse_money (Some (36 # amount_text a)) = Some (round_double (amount_value a))"
proof -
  have "remove_char 36 (remove_char 44 (36 # amount_text a)) =
        remove_char 36 (remove_char 44 (amount_text a))"
    by (simp add: remove_char_def)
  then have r: "remove_char 36 (remove_char 44 (36 # amount_text a)) =
     (if negative a then [45] else []) @ filter (\<lambda>x. x \<noteq> 44) (grouped (dollars a)) @
       46 # pad2 (cents a)"
    using remove_amount_text [OF assms] by simp
  have "parse_money (Some (36 # amount_text a)) =
      Some (round_double ((if negative a then - 1 else 1) *
         (of_nat (digits_value 0 (filter (\<lambda>x. x \<noteq> 44) (grouped (dollars a)) @ pad2 (cents a))) *
            pow10 (- int (length (pad2 (cents a)))))))"
    using r grouped_filter_digits grouped_filter_nonempty pad2_digits [OF assms]
    by (rule parse_money_decimal)
  then show ?thesis unfolding amount_digits_value amount_value_def .
qed

lemma pow10_neg: "pow10 (- int n) = 1 / 10 ^ n"
  by (cases n) (simp_all add: pow10_def nat_int_Suc)

lemma parse_decimal_int:
  assumes ip: "\<forall>x\<in>set ip. is_ascii_digit x" and ne: "ip \<noteq> []"
  shows "parse_decimal ((if neg then [45] else []) @ ip) =
           Inr (round_double ((if neg then - 1 else 1) * of_nat (digits_value 0 ip)))"
proof -
  from ne obtain c cs where c: "ip = c # cs" by (cases ip) auto
  with ip have "is_ascii_digit c" by simp
  then have c45: "c \<noteq> 45" and c43: "c \<noteq> 43" by (auto simp: is_ascii_digit_def)
  have sp: "split_sign ((if neg then [45] else []) @ ip) = (neg, ip)"
    using c c45 c43 by (simp add: split_sign_def)
  have se: "split_exponent [] = (0, [])" by (simp add: split_exponent_def)
  show ?thesis
    unfolding parse_decimal_def sp
    by (simp add: takeWhile_all [OF ip] dropWhile_all [OF ip] ne se pow10_def)
qed

lemma parse_money_integer:
  assumes v: "remove_char 36 (remove_char 44 v) = (if neg then [45] else []) @ ip"
      and ip: "\<forall>x\<in>set ip. is_ascii_digit x" and ne: "ip \<noteq> []"
  shows "parse_money (Some v) =
           Some (round_double ((if neg then - 1 else 1) * of_nat (digits_value 0 ip)))"
proof -
  let ?s = "(if neg then [45] else []) @ ip"
  have vne: "v \<noteq> []" using v ne by (auto simp: remove_char_def)
  have ch: "\<forall>x\<in>set ?s. x = 45 \<or> is_ascii_digit x" using ip by auto
  have imp: "\<not> is_space x \<and> x < 127 \<and> x \<noteq> 95 \<and> \<not> is_ascii_space x"
    if "x = 45 \<or> is_ascii_digit x" for x
    using that by (auto simp: is_ascii_digit_def is_space_def is_ascii_space_def)
  have s_ne: "?s \<noteq> []" using ne by simp
  have hs: "hd ?s \<in> set ?s" using s_ne by (rule hd_in_set)
  have ls: "last ?s \<in> set ?s" using s_ne by (rule last_in_set)
  from hs ch imp have h: "\<not> is_space (hd ?s)" by blast
  from ls ch imp have l: "\<not> is_space (last ?s)" by blast
  from hs ch imp have h': "\<not> is_ascii_space (hd ?s)" by blast
  from ls ch imp have l': "\<not> is_ascii_space (last ?s)" by blast
  from ch imp have lt: "\<forall>x\<in>set ?s. x < 127" by blast
  from ch imp have us: "95 \<notin> set ?s" by blast
  have pf: "py_float ?s = parse_decimal ?s"
    unfolding py_float_def to_ascii_decimal_id [OF lt] Let_def
    using us by (simp only: if_False strip_ascii_id [OF s_ne h' l'])
  have cl: "strip (remove_char 36 (remove_char 44 v)) = ?s"
    by (simp only: v strip_id [OF s_ne h l])
  have "parse_money (Some v) =
      (case py_float (strip (remove_char 36 (remove_char 44 v))) of
         Inr x \<Rightarrow> Some x | Inl ValueError \<Rightarrow> None)"
    using vne by (simp add: parse_money_def)
  then show ?thesis unfolding cl pf parse_decimal_int [OF ip ne] by simp
qed

lemma parse_money_unparsable:
  "py_float (strip (remove_char 36 (remove_char 44 v))) = Inl ValueError \<Longrightarrow>
     parse_money (Some v) = None"
  by (simp add: parse_money_def)

lemma rd_141450: "round_double (141450 / 100) = Fin (2829 / 2)"
  using round_double_cert [of "141450 / 100" 10 6221036789956608] by (simp add: pow2_def)

lemma parse_money_example:
  "parse_money (Some (ascii ''$1,414.50'')) = Some (round_double (141450 / 100))"
proof -
  have "parse_money (Some (ascii ''$1,414.50'')) =
      Some (round_double ((if False then - 1 else 1) *
         (of_nat (digits_value 0 (ascii ''1414'' @ ascii ''50'')) * pow10 (- int (length (ascii ''50''))))))"
    by (rule parse_money_decimal) (simp_all add: ascii_def remove_char_def is_ascii_digit_def)
  then show ?thesis by (simp add: ascii_def pow10_def)
qed

lemma py_float_abc: "py_float (ascii ''abc'') = Inl ValueError"
  by (simp add: py_float_def ascii_def strip_ascii_def is_ascii_space_def parse_decimal_def
        split_sign_def is_ascii_digit_def parse_inf_or_nan_def ascii_lower_def Let_def)

lemma amount_exact:
  assumes c: "cents a < 100" and d: "dollars a < 10 ^ 12"
  shows "\<exists>x. round_double (amount_value a) = Fin x \<and>
             round_half_even (x * 100) =
               (if negative a then - 1 else 1) * int (100 * dollars a + cents a)"
proof -
  define n where "n = (if negative a then - 1 else 1) * int (100 * dollars a + cents a)"
  define u :: rat where "u = of_nat (dollars a) + of_nat (cents a) / 100"
  have v: "amount_value a * 100 = of_int n"
    by (cases "negative a") (simp_all add: amount_value_def n_def)
  have c': "rat_of_nat (cents a) < 100" using c by simp
  have "rat_of_nat (dollars a) < rat_of_nat (10 ^ 12)" using d by (simp only: of_nat_less_iff)
  then have d': "rat_of_nat (dollars a) < 10 ^ 12" by simp
  have u0: "0 \<le> u" by (simp add: u_def)
  have "\<bar>amount_value a\<bar> = u"
    using u0 by (cases "negative a") (simp_all add: amount_value_def u_def [symmetric])
  moreover from c' d' have "u < 10 ^ 12 + 1" by (simp add: u_def)
  ultimately have "\<bar>amount_value a\<bar> < 10 ^ 12 + 1" by simp
  also have "(10::rat) ^ 12 + 1 < 2 ^ 40" by simp
  finally obtain x where x: "round_double (amount_value a) = Fin x"
    and e: "\<bar>x - amount_value a\<bar> \<le> 1 / 2 ^ 13"
    using round_double_close by blast
  have "x * 100 - of_int n = (x - amount_value a) * 100"
    unfolding v [symmetric] by (simp add: left_diff_distrib)
  then have "\<bar>x * 100 - of_int n\<bar> = \<bar>(x - amount_value a) * 100\<bar>"
    by (simp only:)
  also have "\<dots> = \<bar>x - amount_value a\<bar> * 100"
    by (subst abs_mult) simp
  also have "\<dots> < 1 / 2" using e by simp
  finally have "round_half_even (x * 100) = n" by (rule round_half_even_near)
  with x show ?thesis by (simp add: n_def)
qed

section \<open>Greedy runs and the strict pattern\<close>

lemma push_None [simp]: "push None x m = m"
  by (simp add: push_def)

lemma foldr_push_None [simp]: "foldr (push None) xs m = m"
  by (induction xs) simp_all

lemma fst_push: "fst (push g x m) k = (if g = Some k then x # fst m k else fst m k)"
  by (cases g) (auto simp: push_def)

lemma snd_push [simp]: "snd (push g x m) = snd m"
  by (cases g) (auto simp: push_def)

lemma fst_foldr_push:
  "fst (foldr (push g) xs m) k = (if g = Some k then xs @ fst m k else fst m k)"
  by (induction xs) (auto simp: fst_push)

lemma snd_foldr_push [simp]: "snd (foldr (push g) xs m) = snd m"
  by (induction xs) simp_all

lemma rmatch_star_run:
  "\<forall>x\<in>set xs. c x \<Longrightarrow> s = [] \<or> \<not> c (hd s) \<Longrightarrow> rmatch r s = Some m \<Longrightarrow>
     rmatch (Item ZeroOrMore c g # r) (xs @ s) = Some (foldr (push g) xs m)"
proof (induction xs)
  case Nil
  then show ?case by (cases s) auto
next
  case (Cons x xs)
  then show ?case by simp
qed

lemma rmatch_plus_run:
  "\<forall>x\<in>set xs. c x \<Longrightarrow> xs \<noteq> [] \<Longrightarrow> s = [] \<or> \<not> c (hd s) \<Longrightarrow> rmatch r s = Some m \<Longrightarrow>
     rmatch (Item OneOrMore c g # r) (xs @ s) = Some (foldr (push g) xs m)"
  by (cases xs) (simp_all add: rmatch_star_run)

lemma search_first: "rmatch p s = Some m \<Longrightarrow> search p s = Some m"
  by (cases s) simp_all

lemma ascii_digit_is_digit: "is_ascii_digit x \<Longrightarrow> is_digit x"
  by (simp add: is_ascii_digit_def is_digit_def decimal_value_def)

lemma amount_text_chars:
  assumes "cents a < 100"
  shows "\<forall>x\<in>set (amount_text a). amount_class x"
proof -
  have g: "\<forall>x\<in>set (grouped (dollars a)). amount_class x"
    using grouped_chars [of "dollars a"] ascii_digit_is_digit by (auto simp: amount_class_def)
  have p: "\<forall>x\<in>set (pad2 (cents a)). amount_class x"
    using pad2_digits [OF assms] ascii_digit_is_digit by (auto simp: amount_class_def)
  have "amount_class 45" "amount_class 46" by (simp_all add: amount_class_def)
  with g p show ?thesis by (auto simp: amount_text_def)
qed

lemma amount_text_nonempty: "amount_text a \<noteq> []"
  by (simp add: amount_text_def)

lemma not_amount_class_32: "\<not> amount_class 32"
  by (simp add: amount_class_def is_digit_def decimal_value_def)

lemma rmatch_strict_text:
  assumes cn: "valid_county cn" and st: "valid_state st"
      and c1: "cents df < 100" and c2: "cents ind < 100" and c3: "cents sg < 100"
  shows "\<exists>m. rmatch TOOLTIP_PATTERN (strict_text cn st df ind sg) = Some m \<and>
           fst m ''county'' = cn \<and> fst m ''state'' = st \<and>
           fst m ''diff'' = amount_text df \<and> fst m ''individual'' = amount_text ind \<and>
           fst m ''small_group'' = amount_text sg"
proof -
  define p5 where "p5 = [Item OneOrMore amount_class (Some ''small_group'')]"
  define m5 :: rmatch where "m5 = foldr (push (Some ''small_group'')) (amount_text sg) (\<lambda>_. [], [])"
  define t5 where "t5 = amount_text sg"
  have "rmatch (Item OneOrMore amount_class (Some ''small_group'') # []) (amount_text sg @ []) =
          Some (foldr (push (Some ''small_group'')) (amount_text sg) (\<lambda>_. [], []))"
    using amount_text_chars [OF c3] amount_text_nonempty by (rule rmatch_plus_run) simp_all
  then have f5: "rmatch p5 t5 = Some m5" by (simp add: p5_def m5_def t5_def)

  define p4 where "p4 = ws0 # lit_i ''Small'' @ [ws0] @ lit_i ''Group:'' @ [ws0, dollar_opt] @ p5"
  define t4 where "t4 = ascii '' Small Group: $'' @ t5"
  have f4: "rmatch p4 t4 = Some m5"
    using f5 by (simp add: p4_def t4_def ws0_def lit_i_def dollar_opt_def ascii_def ci_def
        ascii_lower_def is_space_def)

  define p3 where "p3 = Item OneOrMore amount_class (Some ''individual'') # p4"
  define m3 where "m3 = foldr (push (Some ''individual'')) (amount_text ind) m5"
  define t3 where "t3 = amount_text ind @ t4"
  have h4: "t4 = [] \<or> \<not> amount_class (hd t4)"
    by (simp add: t4_def ascii_def not_amount_class_32)
  have f3: "rmatch p3 t3 = Some m3"
    unfolding p3_def t3_def m3_def
    using amount_text_chars [OF c2] amount_text_nonempty h4 f4 by (rule rmatch_plus_run)

  define p2 where "p2 = ws0 # lit_i ''Individual:'' @ [ws0, dollar_opt] @ p3"
  define t2 where "t2 = ascii '' Individual: $'' @ t3"
  have f2: "rmatch p2 t2 = Some m3"
    using f3 by (simp add: p2_def t2_def ws0_def lit_i_def dollar_opt_def ascii_def ci_def
        ascii_lower_def is_space_def)

  define p1 where "p1 = Item OneOrMore amount_class (Some ''diff'') # p2"
  define m1 where "m1 = foldr (push (Some ''diff'')) (amount_text df) m3"
  define t1 where "t1 = amount_text df @ t2"
  have h2: "t2 = [] \<or> \<not> amount_class (hd t2)"
    by (simp add: t2_def ascii_def not_amount_class_32)
  have f1: "rmatch p1 t1 = Some m1"
    unfolding p1_def t1_def m1_def
    using amount_text_chars [OF c1] amount_text_nonempty h2 f2 by (rule rmatch_plus_run)

  from st obtain a b where ab: "st = [a, b]" and a: "65 \<le> a" "a \<le> 90" and b: "65 \<le> b" "b \<le> 90"
    by (cases st; cases "tl st") (auto simp: valid_state_def)
  define p0b where "p0b = ws0 # lit_i ''Diff'' @ [ws0] @ lit_i ''(Ind'' @
     [ws0, Item Once dash_class None, ws0] @ lit_i ''Small):'' @ [ws0, dollar_opt] @ p1"
  define t0b where "t0b = ascii '' Diff (Ind - Small): $'' @ t1"
  have f0b: "rmatch p0b t0b = Some m1"
    using f1 by (simp add: p0b_def t0b_def ws0_def lit_i_def dollar_opt_def ascii_def ci_def
        ascii_lower_def is_space_def dash_class_def)
  define p0 where "p0 = lit_i '','' @ [ws0,
      Item Once upper_az_i (Some ''state''), Item Once upper_az_i (Some ''state'')] @ p0b"
  define m0 where "m0 = push (Some ''state'') a (push (Some ''state'') b m1)"
  define t0 where "t0 = 44 # 32 # a # b # t0b"
  have sa: "\<not> is_space a" "upper_az_i a" "upper_az_i b" "is_space 32"
    using a b by (auto simp: is_space_def upper_az_i_def)
  have f0: "rmatch p0 t0 = Some m0"
    using f0b sa by (simp add: p0_def t0_def m0_def ws0_def lit_i_def ci_def)

  define mc where "mc = foldr (push (Some ''county'')) cn m0"
  have h0: "t0 = [] \<or> \<not> not_comma (hd t0)" by (simp add: t0_def not_comma_def)
  have cnc: "\<forall>x\<in>set cn. not_comma x" using cn by (auto simp: valid_county_def not_comma_def)
  have cne: "cn \<noteq> []" using cn by (simp add: valid_county_def)
  have fc: "rmatch (Item OneOrMore not_comma (Some ''county'') # p0) (cn @ t0) = Some mc"
    unfolding mc_def using cnc cne h0 f0 by (rule rmatch_plus_run)
  have pat: "TOOLTIP_PATTERN = Item OneOrMore not_comma (Some ''county'') # p0"
    by (simp add: TOOLTIP_PATTERN_def p0_def p0b_def p1_def p2_def p3_def p4_def p5_def)
  have text_eq: "strict_text cn st df ind sg = cn @ t0"
    by (simp add: strict_text_def t0_def t0b_def t1_def t2_def t3_def t4_def t5_def ab ascii_def)
  have "fst mc ''county'' = cn" "fst mc ''state'' = st" "fst mc ''diff'' = amount_text df"
    "fst mc ''individual'' = amount_text ind" "fst mc ''small_group'' = amount_text sg"
    by (simp_all add: mc_def m0_def m1_def m3_def m5_def fst_foldr_push fst_push ab)
  with fc pat text_eq show ?thesis by simp
qed

lemma normalize_ws_Nil: "normalize_ws [] = []"
  by (simp add: normalize_ws_def)

lemma parse_tooltip_strict:
  assumes cn: "valid_county cn" and st: "valid_state st"
      and c1: "cents df < 100" and c2: "cents ind < 100" and c3: "cents sg < 100"
      and raw: "normalize_ws raw = strict_text cn st df ind sg"
  shows "parse_tooltip (Some raw) =
           Some \<lparr>county = cn, state = st,
                 individual_premium = Some (round_double (amount_value ind)),
                 small_group_premium = Some (round_double (amount_value sg)),
                 difference = Some (round_double (amount_value df))\<rparr>"
proof -
  from rmatch_strict_text [OF cn st c1 c2 c3] obtain m
    where m: "rmatch TOOLTIP_PATTERN (strict_text cn st df ind sg) = Some m"
      and g: "fst m ''county'' = cn" "fst m ''state'' = st" "fst m ''diff'' = amount_text df"
        "fst m ''individual'' = amount_text ind" "fst m ''small_group'' = amount_text sg"
    by blast
  have s: "search TOOLTIP_PATTERN (normalize_ws raw) = Some m"
    unfolding raw using m by (rule search_first)
  have "strict_text cn st df ind sg \<noteq> []" using cn by (simp add: strict_text_def valid_county_def)
  with raw have ne: "raw \<noteq> []" using normalize_ws_Nil by metis
  have sc: "strip cn = cn" using cn by (intro strip_id) (simp_all add: valid_county_def)
  from st obtain a b where ab: "st = [a, b]" and a: "65 \<le> a" "a \<le> 90" and b: "65 \<le> b" "b \<le> 90"
    by (cases st; cases "tl st") (auto simp: valid_state_def)
  have ss: "strip st = st" unfolding ab using a b by (intro strip_id) (simp_all add: is_space_def)
  show ?thesis
    using ne by (simp add: parse_tooltip_def s g sc ss parse_money_amount c1 c2 c3)
qed

text \<open>The example tooltip and its doubles.\<close>

lemma ex_raw_normalized:
  "normalize_ws ex_raw = strict_text (ascii ''Shasta County'') (ascii ''CA'') ex_df ex_ind ex_sg"
  by (simp add: normalize_ws_def ex_raw_def ascii_def is_space_def strict_text_def
        amount_text_def ex_df_def ex_ind_def ex_sg_def grouped.simps dec.simps pad2_def pad3_def)

lemma parse_ex_raw:
  "parse_tooltip (Some ex_raw) =
     Some \<lparr>county = ascii ''Shasta County'', state = ascii ''CA'',
           individual_premium = Some (round_double (amount_value ex_ind)),
           small_group_premium = Some (round_double (amount_value ex_sg)),
           difference = Some (round_double (amount_value ex_df))\<rparr>"
proof -
  have "valid_county (ascii ''Shasta County'')" "valid_state (ascii ''CA'')"
    by (simp_all add: valid_county_def valid_state_def ascii_def is_space_def)
  moreover have "cents ex_df < 100" "cents ex_ind < 100" "cents ex_sg < 100"
    by (simp_all add: ex_df_def ex_ind_def ex_sg_def)
  ultimately show ?thesis using ex_raw_normalized by (rule parse_tooltip_strict)
qed

lemma rd_ex_ind: "round_double (2829 / 2) = Fin (2829 / 2)"
  using round_double_cert [of "2829 / 2" 10 6221036789956608] by (simp add: pow2_def)

lemma rd_ex_sg: "round_double (40443 / 50) = Fin (7114807801943163 / 8796093022208)"
  using round_double_cert [of "40443 / 50" 9 7114807801943163] by (simp add: pow2_def)

lemma rd_ex_df: "round_double (15141 / 25) = Fin (5327265777970053 / 8796093022208)"
  using round_double_cert [of "15141 / 25" 9 5327265777970053] by (simp add: pow2_def)

lemma ex_amount_values:
  "round_double (amount_value ex_ind) = Fin (2829 / 2)"
  "round_double (amount_value ex_sg) = Fin (7114807801943163 / 8796093022208)"
  "round_double (amount_value ex_df) = Fin (5327265777970053 / 8796093022208)"
  by (simp_all add: amount_value_def ex_ind_def ex_sg_def ex_df_def rd_ex_ind rd_ex_sg rd_ex_df)

section \<open>Choice of the scan\<close>

text \<open>
  Claim C8. With more than 100 SVG paths only the path scan runs and its results are
  returned. Otherwise, with a canvas present, only the grid scan runs. With neither, the
  path scan runs first, and the grid scan runs after it exactly when the path scan found
  fewer than 50 counties; its results then replace those of the path scan.
\<close>

theorem scrape_map_strategy:
  "(100 < sp \<longrightarrow> scrape_map sp ce svg cv = ([SvgScan], svg)) \<and>
   (sp \<le> 100 \<and> 0 < ce \<longrightarrow> scrape_map sp ce svg cv = ([CanvasScan], cv)) \<and>
   (sp \<le> 100 \<and> ce = 0 \<longrightarrow>
      hd (fst (scrape_map sp ce svg cv)) = SvgScan \<and>
      (CanvasScan \<in> set (fst (scrape_map sp ce svg cv)) \<longleftrightarrow> length svg < 50) \<and>
      snd (scrape_map sp ce svg cv) = (if length svg < 50 then cv else svg))"
  by (simp add: scrape_map_def)

theorem scrape_map_strategy_witness:
  "scrape_map 101 0 [1::nat] [] = ([SvgScan], [1]) \<and>
   scrape_map 100 1 [1::nat] [2] = ([CanvasScan], [2]) \<and>
   snd (scrape_map 100 0 (replicate 49 (1::nat)) [2]) = [2] \<and>
   snd (scrape_map 100 0 (replicate 50 (1::nat)) [2]) = replicate 50 1"
  using scrape_map_strategy [of 101 0 "[1::nat]" "[]"]
        scrape_map_strategy [of 100 1 "[1::nat]" "[2]"]
        scrape_map_strategy [of 100 0 "replicate 49 (1::nat)" "[2]"]
        scrape_map_strategy [of 100 0 "replicate 50 (1::nat)" "[2]"]
  by simp

section \<open>The comparison of the verifier\<close>

lemma compare_record_individual:
  "MismatchIndividual k \<in> set (compare_record key web our_record) \<longleftrightarrow>
     k = key \<and> (\<exists>our. our_record = Some our \<and> field_mismatch (w_individual web) (r_i our))"
  by (auto simp: compare_record_def split: option.splits)

lemma compare_record_small_group:
  "MismatchSmallGroup k \<in> set (compare_record key web our_record) \<longleftrightarrow>
     k = key \<and> (\<exists>our. our_record = Some our \<and> field_mismatch (w_small_group web) (r_s our))"
  by (auto simp: compare_record_def split: option.splits)

lemma compare_record_not_found:
  "NotFound k \<in> set (compare_record key web our_record) \<longleftrightarrow> k = key \<and> our_record = None"
  by (auto simp: compare_record_def split: option.splits)

lemma field_mismatch_iff:
  "field_mismatch web our \<longleftrightarrow>
     (\<exists>a b. web = Some a \<and> our = Some b \<and> a \<noteq> Fin 0 \<and> b \<noteq> Fin 0 \<and>
            fgt (fabs (fsub a b)) (round_double (1 / 100)))"
proof -
  have t: "truthy a \<longleftrightarrow> a \<noteq> Fin 0" for a by (cases a) simp_all
  show ?thesis
    by (cases web; cases our) (auto simp: field_mismatch_def truthy_field_def tolerance_def t)
qed

lemma verify_compare_mem:
  "m \<in> set (verify_compare found lookup) \<longleftrightarrow>
     (\<exists>key web. (key, web) \<in> set (take 15 (sort_key fst found)) \<and>
                m \<in> set (compare_record key web (lookup key)))"
  by (auto simp: verify_compare_def)

text \<open>
  Claim C9. A field that is exactly 0.0 on either side is never reported: for a scraped
  key whose expected record exists, no mismatch on the individual premium is counted when
  the scraped or the expected individual premium is 0.0, whatever the other side holds,
  and the same for the small-group premium.
\<close>

theorem zero_is_absent:
  assumes "(key, web) \<in> set found" and "distinct (map fst found)" and "lookup key = Some our"
  shows "(w_individual web = Some (Fin 0) \<or> r_i our = Some (Fin 0) \<longrightarrow>
            MismatchIndividual key \<notin> set (verify_compare found lookup)) \<and>
         (w_small_group web = Some (Fin 0) \<or> r_s our = Some (Fin 0) \<longrightarrow>
            MismatchSmallGroup key \<notin> set (verify_compare found lookup))"
proof -
  have only: "web' = web" if "(key, web') \<in> set (take 15 (sort_key fst found))" for web'
  proof -
    from that have "(key, web') \<in> set (sort_key fst found)" by (rule in_set_takeD)
    then have "(key, web') \<in> set found" by simp
    with assms(1,2) show ?thesis by (meson eq_key_imp_eq_value)
  qed
  have z: "\<not> field_mismatch a b" if "a = Some (Fin 0) \<or> b = Some (Fin 0)" for a b
    using that by (auto simp: field_mismatch_def truthy_field_def)
  show ?thesis
    unfolding verify_compare_mem compare_record_individual compare_record_small_group
    using only z assms(3) by auto
qed

theorem zero_is_absent_witness:
  "MismatchIndividual ex_key \<notin>
     set (verify_compare [(ex_key, ex_web (Some (Fin 5)) (Some (Fin 0)))]
           [ex_key \<mapsto> ex_row (Some (Fin 0)) (Some (Fin 7))]) \<and>
   MismatchSmallGroup ex_key \<notin>
     set (verify_compare [(ex_key, ex_web (Some (Fin 5)) (Some (Fin 0)))]
           [ex_key \<mapsto> ex_row (Some (Fin 0)) (Some (Fin 7))])"
  using zero_is_absent [of ex_key "ex_web (Some (Fin 5)) (Some (Fin 0))"
      "[(ex_key, ex_web (Some (Fin 5)) (Some (Fin 0)))]"
      "[ex_key \<mapsto> ex_row (Some (Fin 0)) (Some (Fin 7))]" "ex_row (Some (Fin 0)) (Some (Fin 7))"]
  by (simp add: ex_web_def ex_row_def)

text \<open>Some doubles, each checked with \<open>round_double_cert\<close>.\<close>

lemma rd_001: "round_double (1 / 100) = Fin (5764607523034235 / 576460752303423488)"
  using round_double_cert [of "1 / 100" "- 7" 5764607523034235] by (simp add: pow2_def)

lemma rd_5: "round_double 5 = Fin 5"
  using round_double_cert [of 5 2 5629499534213120] by (simp add: pow2_def)

lemma rd_70099: "round_double (70099 / 100) = Fin (3082986623818793 / 4398046511104)"
  using round_double_cert [of "70099 / 100" 9 6165973247637586] by (simp add: pow2_def)

lemma rd_70098: "round_double (70098 / 100) = Fin (1541471321676841 / 2199023255552)"
  using round_double_cert [of "70098 / 100" 9 6165885286707364] by (simp add: pow2_def)

lemma rd_700991: "round_double (700991 / 1000) = Fin (385373877733163 / 549755813888)"
  using round_double_cert [of "700991 / 1000" 9 6165982043730608] by (simp add: pow2_def)

lemma rd_diff1: "round_double (43980465111 / 4398046511104) = Fin (43980465111 / 4398046511104)"
  using round_double_cert [of "43980465111 / 4398046511104" "- 7" 5764607523028992]
  by (simp add: pow2_def)

lemma rd_diff2: "round_double (24189255811 / 2199023255552) = Fin (24189255811 / 2199023255552)"
  using round_double_cert [of "24189255811 / 2199023255552" "- 7" 6341068275318784]
  by (simp add: pow2_def)

lemma tolerance_examples:
  "\<not> field_mismatch (Some (round_double (70099 / 100))) (Some (round_double (70098 / 100)))"
  "field_mismatch (Some (round_double (700991 / 1000))) (Some (round_double (70098 / 100)))"
  unfolding field_mismatch_def truthy_field_def tolerance_def rd_001 rd_70099 rd_70098 rd_700991
  by (simp_all add: rd_diff1 rd_diff2)

text \<open>
  Claim C4, as stated, fails: with a scraped individual premium of 5.0 and an expected
  one of 0.0 both sides hold a number and they differ by 5, yet no mismatch is counted.
\<close>

theorem verify_zero_counterexample:
  "w_individual (ex_web (Some (Fin 5)) None) = Some (Fin 5) \<and>
   r_i (ex_row (Some (Fin 0)) None) = Some (Fin 0) \<and>
   fgt (fabs (fsub (Fin 5) (Fin 0))) (round_double (1 / 100)) \<and>
   verify_compare [(ex_key, ex_web (Some (Fin 5)) None)]
     [ex_key \<mapsto> ex_row (Some (Fin 0)) None] = []"
  by (simp add: ex_web_def ex_row_def verify_compare_def compare_record_def field_mismatch_def
        truthy_field_def rd_001 rd_5)

text \<open>
  Claim C4, amended. Among the first 15 scraped keys in sorted order, a mismatch on the
  individual (or small-group) premium is counted for a key exactly when its expected
  record exists, both sides hold a number other than zero for that field, and the
  absolute value of their difference, computed on doubles, exceeds the double 0.01. The
  difference field is not compared. A compared key without an expected record is counted
  as not found, and the verdict is that nothing was counted. Scraped 700.99 against
  expected 700.98 is not a mismatch; scraped 700.991 against 700.98 is one.
\<close>

theorem verify_reports:
  "(MismatchIndividual key \<in> set (verify_compare found lookup) \<longleftrightarrow>
      (\<exists>web our a b. (key, web) \<in> set (take 15 (sort_key fst found)) \<and> lookup key = Some our \<and>
         w_individual web = Some a \<and> r_i our = Some b \<and> a \<noteq> Fin 0 \<and> b \<noteq> Fin 0 \<and>
         fgt (fabs (fsub a b)) (round_double (1 / 100)))) \<and>
   (MismatchSmallGroup key \<in> set (verify_compare found lookup) \<longleftrightarrow>
      (\<exists>web our a b. (key, web) \<in> set (take 15 (sort_key fst found)) \<and> lookup key = Some our \<and>
         w_small_group web = Some a \<and> r_s our = Some b \<and> a \<noteq> Fin 0 \<and> b \<noteq> Fin 0 \<and>
         fgt (fabs (fsub a b)) (round_double (1 / 100)))) \<and>
   (NotFound key \<in> set (verify_compare found lookup) \<longleftrightarrow>
      (\<exists>web. (key, web) \<in> set (take 15 (sort_key fst found)) \<and> lookup key = None)) \<and>
   (verify found our_data \<longleftrightarrow>
      (\<forall>k. MismatchIndividual k \<notin> set (verify_compare found (build_lookup our_data)) \<and>
           MismatchSmallGroup k \<notin> set (verify_compare found (build_lookup our_data)) \<and>
           NotFound k \<notin> set (verify_compare found (build_lookup our_data)))) \<and>
   \<not> field_mismatch (Some (round_double (70099 / 100))) (Some (round_double (70098 / 100))) \<and>
   field_mismatch (Some (round_double (700991 / 1000))) (Some (round_double (70098 / 100)))"
proof -
  have i: "MismatchIndividual key \<in> set (verify_compare found lookup) \<longleftrightarrow>
      (\<exists>web our a b. (key, web) \<in> set (take 15 (sort_key fst found)) \<and> lookup key = Some our \<and>
         w_individual web = Some a \<and> r_i our = Some b \<and> a \<noteq> Fin 0 \<and> b \<noteq> Fin 0 \<and>
         fgt (fabs (fsub a b)) (round_double (1 / 100)))"
    unfolding verify_compare_mem compare_record_individual field_mismatch_iff by blast
  have s: "MismatchSmallGroup key \<in> set (verify_compare found lookup) \<longleftrightarrow>
      (\<exists>web our a b. (key, web) \<in> set (take 15 (sort_key fst found)) \<and> lookup key = Some our \<and>
         w_small_group web = Some a \<and> r_s our = Some b \<and> a \<noteq> Fin 0 \<and> b \<noteq> Fin 0 \<and>
         fgt (fabs (fsub a b)) (round_double (1 / 100)))"
    unfolding verify_compare_mem compare_record_small_group field_mismatch_iff by blast
  have n: "NotFound key \<in> set (verify_compare found lookup) \<longleftrightarrow>
      (\<exists>web. (key, web) \<in> set (take 15 (sort_key fst found)) \<and> lookup key = None)"
    unfolding verify_compare_mem compare_record_not_found by blast
  have e: "verify found our_data \<longleftrightarrow>
      (\<forall>k. MismatchIndividual k \<notin> set (verify_compare found (build_lookup our_data)) \<and>
           MismatchSmallGroup k \<notin> set (verify_compare found (build_lookup our_data)) \<and>
           NotFound k \<notin> set (verify_compare found (build_lookup our_data)))"
  proof (cases "verify_compare found (build_lookup our_data)")
    case Nil
    then show ?thesis by (simp add: verify_def)
  next
    case (Cons m ms)
    then have mem: "m \<in> set (verify_compare found (build_lookup our_data))" by simp
    have nv: "\<not> verify found our_data" using Cons by (simp add: verify_def)
    show ?thesis
    proof (cases m)
      case (MismatchIndividual k)
      with mem nv show ?thesis by blast
    next
      case (MismatchSmallGroup k)
      with mem nv show ?thesis by blast
    next
      case (NotFound k)
      with mem nv show ?thesis by blast
    qed
  qed
  from i s n e tolerance_examples show ?thesis by blast
qed

theorem verify_reports_witness:
  "MismatchIndividual ex_key \<in>
     set (verify_compare [(ex_key, ex_web (Some (round_double (700991 / 1000))) None)]
           [ex_key \<mapsto> ex_row (Some (round_double (70098 / 100))) None])"
proof -
  have "\<exists>web our a b.
          (ex_key, web) \<in> set (take 15 (sort_key fst
             [(ex_key, ex_web (Some (round_double (700991 / 1000))) None)])) \<and>
          [ex_key \<mapsto> ex_row (Some (round_double (70098 / 100))) None] ex_key = Some our \<and>
          w_individual web = Some a \<and> r_i our = Some b \<and> a \<noteq> Fin 0 \<and> b \<noteq> Fin 0 \<and>
          fgt (fabs (fsub a b)) (round_double (1 / 100))"
    unfolding rd_001 rd_70098 rd_700991
    by (simp add: ex_web_def ex_row_def rd_diff2)
  then show ?thesis
    using verify_reports [of ex_key "[(ex_key, ex_web (Some (round_double (700991 / 1000))) None)]"
        "[ex_key \<mapsto> ex_row (Some (round_double (70098 / 100))) None]" "[]"]
    by blast
qed

section \<open>The CSV writers\<close>

lemma length_sort_key_eq: "length (sort_key f xs) = length xs"
  by (induction xs) (simp_all add: insort_key_def[symmetric])

text \<open>
  Claim C10. For an empty list none of the three writers touches the file system, and
  the county and state exporters return 0. For a non-empty list the exporters return the
  length of the list, and the file written holds as many rows.
\<close>

theorem empty_list_writes_nothing:
  "write_csv [] p1 fs1 = fs1 \<and>
   export_counties_csv [] p2 fs2 = (fs2, 0) \<and>
   export_states_csv [] p3 fs3 = (fs3, 0) \<and>
   (cdata \<noteq> [] \<longrightarrow>
      snd (export_counties_csv cdata p2 fs2) = length cdata \<and>
      (\<exists>file. fst (export_counties_csv cdata p2 fs2) p2 = Some file \<and>
              length (rows file) = length cdata)) \<and>
   (sdata \<noteq> [] \<longrightarrow>
      snd (export_states_csv sdata p3 fs3) = length sdata \<and>
      (\<exists>file. fst (export_states_csv sdata p3 fs3) p3 = Some file \<and>
              length (rows file) = length sdata)) \<and>
   (results \<noteq> [] \<longrightarrow>
      (\<exists>file. write_csv results p1 fs1 p1 = Some file \<and> length (rows file) = length results))"
  by (simp add: write_csv_def export_counties_csv_def export_states_csv_def Let_def
        length_sort_key_eq)

theorem empty_list_writes_nothing_witness:
  "snd (export_counties_csv [ex_row None None, ex_row (Some (Fin 1)) None] ''out.csv'' Map.empty) = 2 \<and>
   export_counties_csv [] ''out.csv'' Map.empty = (Map.empty, 0)"
  using empty_list_writes_nothing [of "''out.csv''" Map.empty "''out.csv''" Map.empty
      "''out.csv''" Map.empty "[ex_row None None, ex_row (Some (Fin 1)) None]" "[]" "[]"]
  by simp

section \<open>Deduplication in the scans\<close>

lemma set_strip: "set (strip s) \<subseteq> set s"
proof -
  have "set (strip s) = set (dropWhile is_space (rev (dropWhile is_space s)))"
    by (simp add: strip_def)
  also have "\<dots> \<subseteq> set (rev (dropWhile is_space s))" by (auto dest: set_dropWhileD)
  also have "\<dots> \<subseteq> set s" by (auto dest: set_dropWhileD)
  finally show ?thesis .
qed

lemma group_in_county: "group_in ''county'' not_comma TOOLTIP_PATTERN"
  by (auto simp: group_in_def TOOLTIP_PATTERN_def lit_i_def ws0_def dollar_opt_def)

lemma group_in_simple: "group_in ''1'' not_comma simple_pattern"
  by (auto simp: group_in_def simple_pattern_def lit_def ws0_def)

lemma parse_tooltip_no_comma:
  assumes "parse_tooltip x = Some dt"
  shows "44 \<notin> set (county dt)"
proof -
  have a: "44 \<notin> set (strip (fst m ''county''))" if "search TOOLTIP_PATTERN s = Some m" for s m
    using search_group_in [OF that group_in_county] set_strip [of "fst m ''county''"]
    by (auto simp: not_comma_def)
  have b: "44 \<notin> set (strip (fst m ''1''))" if "search simple_pattern s = Some m" for s m
    using search_group_in [OF that group_in_simple] set_strip [of "fst m ''1''"]
    by (auto simp: not_comma_def)
  from assms a b show ?thesis
    by (auto simp: parse_tooltip_def Let_def split: option.splits if_splits)
qed

lemma sample_key_inj:
  assumes "sample_key d = sample_key e" and "44 \<notin> set (county d)" and "44 \<notin> set (county e)"
  shows "county_state d = county_state e"
proof -
  have tw: "takeWhile (\<lambda>x. x \<noteq> 44) (c @ 44 # r) = c" if "44 \<notin> set c" for c r :: ustr
    using that by (induction c) auto
  have k: "sample_key t = county t @ 44 # 32 # state t" for t
    by (simp add: sample_key_def ascii_def)
  from assms(1) have "takeWhile (\<lambda>x. x \<noteq> 44) (sample_key d) = takeWhile (\<lambda>x. x \<noteq> 44) (sample_key e)"
    by simp
  then have c: "county d = county e" using assms(2,3) by (simp add: k tw)
  with assms(1) have "state d = state e" by (simp add: k)
  with c show ?thesis by (simp add: county_state_def)
qed

lemma samples_of_snoc:
  "samples_of (ps @ [p]) = samples_of ps @ (case sample_of p of None \<Rightarrow> [] | Some d \<Rightarrow> [d])"
  by (simp add: samples_of_def map_filter_def split: option.splits)

lemma samples_no_comma: "d \<in> set (samples_of ps) \<Longrightarrow> 44 \<notin> set (county d)"
proof -
  assume "d \<in> set (samples_of ps)"
  then obtain p where "sample_of p = Some d" by (auto simp: samples_of_def map_filter_def)
  then show ?thesis by (cases p rule: sample_of.cases) (auto dest: parse_tooltip_no_comma)
qed

lemma parse_tooltip_empty: "parse_tooltip (Some []) = None"
  by (simp add: parse_tooltip_def)

lemma scan_step_sample:
  "scan_step args st p =
     (case sample_of p of
        None \<Rightarrow> st
      | Some dt \<Rightarrow> if sample_key dt \<notin> snd st
                   then (fst st @ [annotate args dt], insert (sample_key dt) (snd st)) else st)"
  by (cases p rule: sample_of.cases)
     (auto simp: scan_step_def parse_tooltip_empty Let_def split: option.splits)

lemma scan_fold:
  "foldl (scan_step args) ([], {}) probes =
     (map (annotate args) (firsts county_state (samples_of probes)),
      sample_key ` set (samples_of probes))"
proof (induction probes rule: rev_induct)
  case Nil
  show ?case by (simp add: samples_of_def map_filter_simps)
next
  case (snoc p ps)
  have step: "foldl (scan_step args) ([], {}) (ps @ [p]) =
      scan_step args (map (annotate args) (firsts county_state (samples_of ps)),
                      sample_key ` set (samples_of ps)) p"
    by (simp add: snoc)
  show ?case
  proof (cases "sample_of p")
    case None
    note step
    also have "scan_step args (map (annotate args) (firsts county_state (samples_of ps)),
                      sample_key ` set (samples_of ps)) p =
         (map (annotate args) (firsts county_state (samples_of ps)),
                      sample_key ` set (samples_of ps))"
      by (subst scan_step_sample) (simp add: None)
    finally show ?thesis using None by (simp add: samples_of_snoc)
  next
    case (Some dt)
    have dt: "44 \<notin> set (county dt)"
      using Some by (cases p rule: sample_of.cases) (auto dest: parse_tooltip_no_comma)
    have "sample_key dt \<in> sample_key ` set (samples_of ps) \<longleftrightarrow>
          county_state dt \<in> county_state ` set (samples_of ps)"
    proof
      assume "sample_key dt \<in> sample_key ` set (samples_of ps)"
      then obtain e where e: "e \<in> set (samples_of ps)" and k: "sample_key dt = sample_key e" by auto
      from sample_key_inj [OF k dt samples_no_comma [OF e]] e
      show "county_state dt \<in> county_state ` set (samples_of ps)" by auto
    next
      assume "county_state dt \<in> county_state ` set (samples_of ps)"
      then obtain e where e: "e \<in> set (samples_of ps)" and k: "county_state dt = county_state e"
        by auto
      from k have "sample_key dt = sample_key e" by (simp add: county_state_def sample_key_def)
      with e show "sample_key dt \<in> sample_key ` set (samples_of ps)" by auto
    qed
    then have "scan_step args (map (annotate args) (firsts county_state (samples_of ps)),
                      sample_key ` set (samples_of ps)) p =
         (map (annotate args) (firsts county_state (samples_of (ps @ [p]))),
          sample_key ` set (samples_of (ps @ [p])))"
      by (subst scan_step_sample) (auto simp add: Some samples_of_snoc firsts_snoc)
    with step show ?thesis by simp
  qed
qed

lemma firsts_replicate:
  "firsts f (xs @ replicate (Suc k) x) = firsts f (xs @ [x])"
proof (induction k)
  case 0
  show ?case by simp
next
  case (Suc k)
  have "xs @ replicate (Suc (Suc k)) x = (xs @ replicate (Suc k) x) @ [x]"
    by (simp add: replicate_append_same)
  then have "firsts f (xs @ replicate (Suc (Suc k)) x) = firsts f ((xs @ replicate (Suc k) x) @ [x])"
    by (simp only:)
  also have "\<dots> = firsts f (xs @ replicate (Suc k) x)"
    by (subst firsts_snoc) simp
  finally show ?case using Suc by simp
qed

lemma samples_of_append: "samples_of (ps @ qs) = samples_of ps @ samples_of qs"
  by (simp add: samples_of_def map_filter_def)

lemma samples_of_replicate:
  "sample_of p = Some d \<Longrightarrow> samples_of (replicate n p) = replicate n d"
  by (induction n) (simp_all add: samples_of_def map_filter_simps)

lemma county_state_annotate: "(county (annotate args d), state (annotate args d)) = county_state d"
  by (simp add: annotate_def county_state_def)

text \<open>
  Claim C5. The output of a scan is the list of the first samples per (county, state), in
  the order in which they were met, each with the values it was parsed with and the year,
  age and metal level of the run: its keys are distinct, it is a subsequence of the
  samples, and a reading met again, however often, adds one result when its key is new
  and none otherwise.
\<close>

theorem scan_keeps_first_per_key:
  "scrape_svg_map probes args = map (annotate args) (firsts county_state (samples_of probes)) \<and>
   scrape_canvas_map True probes args =
     map (annotate args) (firsts county_state (samples_of probes)) \<and>
   distinct (map (\<lambda>r. (county r, state r)) (scrape_svg_map probes args)) \<and>
   subseq (scrape_svg_map probes args) (map (annotate args) (samples_of probes)) \<and>
   (parse_tooltip (Some t) = Some dt \<longrightarrow>
      length (scrape_svg_map (probes @ replicate (Suc k) (Tooltip (Some t))) args) =
      length (scrape_svg_map probes args) +
        (if (county dt, state dt) \<in> (\<lambda>e. (county e, state e)) ` set (samples_of probes)
         then 0 else 1))"
proof -
  have svg: "scrape_svg_map ps args = map (annotate args) (firsts county_state (samples_of ps))"
    for ps by (simp add: scrape_svg_map_def scan_fold)
  have cv: "scrape_canvas_map True probes args =
      map (annotate args) (firsts county_state (samples_of probes))"
    by (simp add: scrape_canvas_map_def scan_fold)
  have "map (\<lambda>r. (county r, state r)) (scrape_svg_map probes args) =
        map county_state (firsts county_state (samples_of probes))"
    by (simp add: svg county_state_annotate o_def)
  then have di: "distinct (map (\<lambda>r. (county r, state r)) (scrape_svg_map probes args))"
    by (simp add: distinct_firsts)
  have su: "subseq (scrape_svg_map probes args) (map (annotate args) (samples_of probes))"
    unfolding svg by (intro subseq_map firsts_subseq)
  have le: "length (scrape_svg_map (probes @ replicate (Suc k) (Tooltip (Some t))) args) =
      length (scrape_svg_map probes args) +
        (if (county dt, state dt) \<in> (\<lambda>e. (county e, state e)) ` set (samples_of probes)
         then 0 else 1)" if p: "parse_tooltip (Some t) = Some dt"
  proof -
    have "samples_of (probes @ replicate (Suc k) (Tooltip (Some t))) =
          samples_of probes @ replicate (Suc k) dt"
      using p by (simp only: samples_of_append samples_of_replicate [of "Tooltip (Some t)" dt] sample_of.simps)
    then have "firsts county_state (samples_of (probes @ replicate (Suc k) (Tooltip (Some t)))) =
          firsts county_state (samples_of probes @ [dt])"
      by (simp only: firsts_replicate)
    moreover have "(\<lambda>e. (county e, state e)) = county_state" by (auto simp: county_state_def)
    moreover have "(county dt, state dt) = county_state dt" by (simp add: county_state_def)
    ultimately show ?thesis
      by (simp only: svg firsts_snoc) simp
  qed
  from svg [of probes] cv di su le show ?thesis by blast
qed

theorem scan_keeps_first_per_key_witness:
  "length (scrape_svg_map ([Skipped, Tooltip None] @ replicate (Suc 2) (Tooltip (Some ex_raw)))
             ex_args) = 1"
proof -
  have "length (scrape_svg_map [Skipped, Tooltip None] ex_args) = 0"
    by (simp add: scrape_svg_map_def scan_step_def)
  moreover have "samples_of [Skipped, Tooltip None] = []"
    by (simp add: samples_of_def map_filter_simps)
  ultimately show ?thesis
    using scan_keeps_first_per_key [of "[Skipped, Tooltip None]" ex_args ex_raw _ 2] parse_ex_raw
    by simp
qed

section \<open>The state aggregation\<close>

lemma group_append_fold:
  "foldl group_append [] xs =
     map (\<lambda>k. (k, filter (\<lambda>r. row_key r = k) xs)) (firsts (\<lambda>k. k) (map row_key xs))"
proof (induction xs rule: rev_induct)
  case Nil
  show ?case by simp
next
  case (snoc x xs)
  let ?K = "firsts (\<lambda>k. k) (map row_key xs)"
  let ?G = "map (\<lambda>k. (k, filter (\<lambda>r. row_key r = k) xs)) ?K"
  have keys: "set (map fst ?G) = row_key ` set xs"
    using set_firsts_image [of "\<lambda>k. k" "map row_key xs"] by (simp add: o_def)
  have step: "foldl group_append [] (xs @ [x]) = group_append ?G x" by (simp add: snoc)
  show ?case
  proof (cases "row_key x \<in> row_key ` set xs")
    case True
    have k': "firsts (\<lambda>k. k) (map row_key (xs @ [x])) = ?K"
      using True by (simp add: firsts_snoc)
    from True have "group_append ?G x =
        map (\<lambda>(k, rs). if k = row_key x then (k, rs @ [x]) else (k, rs)) ?G"
      unfolding group_append_def keys by simp
    also have "\<dots> = map (\<lambda>k. (k, filter (\<lambda>r. row_key r = k) (xs @ [x]))) ?K"
      by auto
    finally show ?thesis unfolding step k' .
  next
    case False
    have k': "firsts (\<lambda>k. k) (map row_key (xs @ [x])) = ?K @ [row_key x]"
      using False by (simp add: firsts_snoc)
    have nin: "row_key r \<noteq> row_key x" if "r \<in> set xs" for r
      using that False by (metis image_eqI)
    have e: "filter (\<lambda>r. row_key r = row_key x) xs = []"
      using nin by (simp add: filter_empty_conv)
    have "set ?K = row_key ` set xs"
      using set_firsts_image [of "\<lambda>k. k" "map row_key xs"] by simp
    then have n: "row_key x \<noteq> k" if "k \<in> set ?K" for k
      using that False by metis
    from False have "group_append ?G x = ?G @ [(row_key x, [x])]"
      unfolding group_append_def keys by simp
    also have "\<dots> = map (\<lambda>k. (k, filter (\<lambda>r. row_key r = k) (xs @ [x]))) (?K @ [row_key x])"
      using e n by simp
    finally show ?thesis unfolding step k' .
  qed
qed

lemma mean2_eq:
  "mean2 (field_vals fld rs) =
     (if \<forall>r\<in>set rs. fld r = None then None
      else Some (py_round2 (py_mean (map (\<lambda>r. the (fld r)) (filter (\<lambda>r. fld r \<noteq> None) rs)))))"
  by (auto simp: mean2_def field_vals_def filter_empty_conv)

text \<open>
  Claim C3. The result has one entry per key (state, age, metal level) among the rows of
  the year, in the order in which the keys first occur, computed from all the rows with
  that key. For each of the three premium fields on its own, the entry holds no mean when
  every row of the group has \<open>null\<close> there, and otherwise the mean of the values that
  are not \<open>null\<close>, rounded to two decimals. The count is the number of rows of the group.
\<close>

theorem aggregate_by_state_means:
  "aggregate_by_state data yr =
     map (\<lambda>k. summarize yr k
                (filter (\<lambda>r. row_key r = k) (filter (\<lambda>r. r_year r = yr - 2000) data)))
         (firsts (\<lambda>k. k) (map row_key (filter (\<lambda>r. r_year r = yr - 2000) data))) \<and>
   individual_premium_avg (summarize yr k rs) =
     (if \<forall>r\<in>set rs. r_i r = None then None
      else Some (py_round2 (py_mean (map (\<lambda>r. the (r_i r)) (filter (\<lambda>r. r_i r \<noteq> None) rs))))) \<and>
   small_group_premium_avg (summarize yr k rs) =
     (if \<forall>r\<in>set rs. r_s r = None then None
      else Some (py_round2 (py_mean (map (\<lambda>r. the (r_s r)) (filter (\<lambda>r. r_s r \<noteq> None) rs))))) \<and>
   difference_avg (summarize yr k rs) =
     (if \<forall>r\<in>set rs. r_d r = None then None
      else Some (py_round2 (py_mean (map (\<lambda>r. the (r_d r)) (filter (\<lambda>r. r_d r \<noteq> None) rs))))) \<and>
   county_count (summarize yr k rs) = length rs \<and>
   state_abbr (summarize yr k rs) = fst k \<and>
   a_age (summarize yr k rs) = fst (snd k) \<and>
   a_year (summarize yr k rs) = yr"
proof -
  have "aggregate_by_state data yr =
     map (\<lambda>k. summarize yr k
                (filter (\<lambda>r. row_key r = k) (filter (\<lambda>r. r_year r = yr - 2000) data)))
         (firsts (\<lambda>k. k) (map row_key (filter (\<lambda>r. r_year r = yr - 2000) data)))"
    by (simp add: aggregate_by_state_def Let_def group_append_fold o_def)
  moreover have "individual_premium_avg (summarize yr k rs) = mean2 (field_vals r_i rs)"
    and "small_group_premium_avg (summarize yr k rs) = mean2 (field_vals r_s rs)"
    and "difference_avg (summarize yr k rs) = mean2 (field_vals r_d rs)"
    and "county_count (summarize yr k rs) = length rs"
    and "state_abbr (summarize yr k rs) = fst k"
    and "a_age (summarize yr k rs) = fst (snd k)"
    and "a_year (summarize yr k rs) = yr"
    by (simp_all add: summarize_def split: prod.splits)
  ultimately show ?thesis by (simp only: mean2_eq)
qed

lemma rd_100: "round_double 100 = Fin 100"
  using round_double_cert [of 100 6 7036874417766400] by (simp add: pow2_def)

lemma rd_250: "round_double 250 = Fin 250"
  using round_double_cert [of 250 7 8796093022208000] by (simp add: pow2_def)

lemma map_of_TX: "map_of STATE_NAMES (ascii ''TX'') = Some (ascii ''Texas'')"
  by (simp add: STATE_NAMES_def ascii_def)

theorem aggregate_by_state_means_witness:
  "aggregate_by_state ex_data 2026 =
     [\<lparr>state_abbr = ascii ''TX'', state_name = ascii ''Texas'', a_age = 50,
       metal_tier = ascii ''Gold'', individual_premium_avg = Some (Fin 100),
       small_group_premium_avg = Some (Fin 250), difference_avg = None,
       county_count = 2, a_year = 2026\<rparr>]"
proof -
  have "aggregate_by_state ex_data 2026 =
     map (\<lambda>k. summarize 2026 k
                (filter (\<lambda>r. row_key r = k) (filter (\<lambda>r. r_year r = 2026 - 2000) ex_data)))
         (firsts (\<lambda>k. k) (map row_key (filter (\<lambda>r. r_year r = 2026 - 2000) ex_data)))"
    using aggregate_by_state_means [of ex_data 2026] by blast
  also have "\<dots> = [\<lparr>state_abbr = ascii ''TX'', state_name = ascii ''Texas'', a_age = 50,
       metal_tier = ascii ''Gold'', individual_premium_avg = Some (Fin 100),
       small_group_premium_avg = Some (Fin 250), difference_avg = None,
       county_count = 2, a_year = 2026\<rparr>]"
    by (simp add: ex_data_def row_key_def summarize_def map_of_TX mean2_def field_vals_def
          py_mean_def py_round2_def round_half_even_def rd_100 rd_250)
       (simp add: capitalize_def ascii_upper_def ascii_lower_def ascii_def)
  finally show ?thesis .
qed

section \<open>Claims about \<open>parse_money\<close>\<close>

text \<open>
  Claim C6. \<open>parse_money\<close> returns \<open>None\<close> for \<open>None\<close> and for the empty string, and for
  every string that \<open>float\<close> rejects once commas and dollar signs are removed and the
  ends stripped; the \<open>ValueError\<close> never leaves the function. A string that, without its
  commas and dollar signs, is an optional minus sign and a decimal number (digits, with
  or without a point and more digits) yields the double nearest to that number, so
  \<open>$1,414.50\<close> yields 1414.5.
\<close>

theorem parse_money_spec:
  "parse_money None = None \<and>
   parse_money (Some []) = None \<and>
   parse_money (Some (ascii ''$1,414.50'')) = Some (Fin (2829 / 2)) \<and>
   (py_float (strip (remove_char 36 (remove_char 44 v))) = Inl ValueError \<longrightarrow>
      parse_money (Some v) = None) \<and>
   ((\<forall>x\<in>set ip. is_ascii_digit x) \<and> ip \<noteq> [] \<and> (\<forall>x\<in>set fp. is_ascii_digit x) \<and>
    remove_char 36 (remove_char 44 v) = (if neg then [45] else []) @ ip @ 46 # fp \<longrightarrow>
      parse_money (Some v) =
        Some (round_double ((if neg then - 1 else 1) *
               (of_nat (digits_value 0 (ip @ fp)) / 10 ^ length fp)))) \<and>
   ((\<forall>x\<in>set ip. is_ascii_digit x) \<and> ip \<noteq> [] \<and>
    remove_char 36 (remove_char 44 v) = (if neg then [45] else []) @ ip \<longrightarrow>
      parse_money (Some v) =
        Some (round_double ((if neg then - 1 else 1) * of_nat (digits_value 0 ip))))"
proof -
  have a: "parse_money None = None" "parse_money (Some []) = None"
    by (simp_all add: parse_money_def)
  have b: "parse_money (Some (ascii ''$1,414.50'')) = Some (Fin (2829 / 2))"
    unfolding parse_money_example rd_141450 ..
  have c: "parse_money (Some v) =
        Some (round_double ((if neg then - 1 else 1) *
               (of_nat (digits_value 0 (ip @ fp)) / 10 ^ length fp)))"
    if "\<forall>x\<in>set ip. is_ascii_digit x" "ip \<noteq> []" "\<forall>x\<in>set fp. is_ascii_digit x"
       "remove_char 36 (remove_char 44 v) = (if neg then [45] else []) @ ip @ 46 # fp"
    using parse_money_decimal [OF that(4) that(1) that(2) that(3)] by (simp add: pow10_neg)
  have d: "parse_money (Some v) =
        Some (round_double ((if neg then - 1 else 1) * of_nat (digits_value 0 ip)))"
    if "\<forall>x\<in>set ip. is_ascii_digit x" "ip \<noteq> []"
       "remove_char 36 (remove_char 44 v) = (if neg then [45] else []) @ ip"
    using parse_money_integer [OF that(3) that(1) that(2)] .
  from a b c d parse_money_unparsable [of v] show ?thesis by blast
qed

theorem parse_money_spec_witness:
  "parse_money (Some (ascii ''abc'')) = None \<and>
   parse_money (Some (ascii ''$-1,047.62'')) = Some (round_double (- (104762 / 100))) \<and>
   parse_money (Some (ascii ''$1,414'')) = Some (round_double 1414)"
proof -
  have h1: "py_float (strip (remove_char 36 (remove_char 44 (ascii ''abc'')))) = Inl ValueError"
    by (simp add: py_float_def ascii_def strip_ascii_def is_ascii_space_def parse_decimal_def
        split_sign_def is_ascii_digit_def parse_inf_or_nan_def ascii_lower_def Let_def
        strip_def is_space_def remove_char_def)
  from parse_money_spec [of "ascii ''abc''"] h1
  have r1: "parse_money (Some (ascii ''abc'')) = None" by blast
  have h2: "(\<forall>x\<in>set (ascii ''1047''). is_ascii_digit x) \<and> ascii ''1047'' \<noteq> [] \<and>
      (\<forall>x\<in>set (ascii ''62''). is_ascii_digit x) \<and>
      remove_char 36 (remove_char 44 (ascii ''$-1,047.62'')) =
        (if True then [45] else []) @ ascii ''1047'' @ 46 # ascii ''62''"
    by (simp add: ascii_def remove_char_def is_ascii_digit_def)
  from parse_money_spec [of "ascii ''$-1,047.62''" "ascii ''1047''" "ascii ''62''" True] h2
  have "parse_money (Some (ascii ''$-1,047.62'')) =
        Some (round_double ((if True then - 1 else 1) *
               (of_nat (digits_value 0 (ascii ''1047'' @ ascii ''62'')) / 10 ^ length (ascii ''62''))))"
    by blast
  then have r2: "parse_money (Some (ascii ''$-1,047.62'')) = Some (round_double (- (104762 / 100)))"
    by (simp add: ascii_def)
  have h3: "(\<forall>x\<in>set (ascii ''1414''). is_ascii_digit x) \<and> ascii ''1414'' \<noteq> [] \<and>
      remove_char 36 (remove_char 44 (ascii ''$1,414'')) = (if False then [45] else []) @ ascii ''1414''"
    by (simp add: ascii_def remove_char_def is_ascii_digit_def)
  from parse_money_spec [of "ascii ''$1,414''" "ascii ''1414''" "[]" False] h3
  have "parse_money (Some (ascii ''$1,414'')) =
        Some (round_double ((if False then - 1 else 1) * of_nat (digits_value 0 (ascii ''1414''))))"
    by blast
  then have r3: "parse_money (Some (ascii ''$1,414'')) = Some (round_double 1414)"
    by (simp add: ascii_def)
  from r1 r2 r3 show ?thesis by blast
qed

section \<open>The strict format\<close>

text \<open>
  Claim C1. Let the text, once its whitespace is normalised, be a county name without
  comma, a comma, a state code of two capital letters, and the three dollar amounts
  under their labels \<open>Diff (Ind - Small)\<close>, \<open>Individual\<close> and \<open>Small Group\<close>, with the ASCII
  hyphen. Then \<open>parse_tooltip\<close> returns the county and the state as written, and for
  each amount the double nearest to the number written. Below \<open>10^12\<close> dollars that
  double, rounded to two decimals, is the number written to the cent.
\<close>

theorem parse_tooltip_strict_format:
  assumes "valid_county cn" and "valid_state st"
      and "cents df < 100" and "cents ind < 100" and "cents sg < 100"
      and "normalize_ws raw = strict_text cn st df ind sg"
  shows "parse_tooltip (Some raw) =
           Some \<lparr>county = cn, state = st,
                 individual_premium = Some (round_double (amount_value ind)),
                 small_group_premium = Some (round_double (amount_value sg)),
                 difference = Some (round_double (amount_value df))\<rparr> \<and>
         (\<forall>a\<in>{df, ind, sg}. dollars a < 10 ^ 12 \<longrightarrow>
            (\<exists>x. round_double (amount_value a) = Fin x \<and>
                 round_half_even (x * 100) =
                   (if negative a then - 1 else 1) * int (100 * dollars a + cents a)))"
proof -
  have "cents a < 100" if "a \<in> {df, ind, sg}" for a
    using that assms(3-5) by auto
  then have "\<forall>a\<in>{df, ind, sg}. dollars a < 10 ^ 12 \<longrightarrow>
            (\<exists>x. round_double (amount_value a) = Fin x \<and>
                 round_half_even (x * 100) =
                   (if negative a then - 1 else 1) * int (100 * dollars a + cents a))"
    using amount_exact by blast
  with parse_tooltip_strict [OF assms] show ?thesis by blast
qed

theorem parse_tooltip_strict_format_witness:
  "parse_tooltip (Some ex_raw) =
     Some \<lparr>county = ascii ''Shasta County'', state = ascii ''CA'',
           individual_premium = Some (Fin (2829 / 2)),
           small_group_premium = Some (Fin (7114807801943163 / 8796093022208)),
           difference = Some (Fin (5327265777970053 / 8796093022208))\<rparr>"
proof -
  have v: "valid_county (ascii ''Shasta County'')" "valid_state (ascii ''CA'')"
    by (simp_all add: valid_county_def valid_state_def ascii_def is_space_def)
  have c: "cents ex_df < 100" "cents ex_ind < 100" "cents ex_sg < 100"
    by (simp_all add: ex_df_def ex_ind_def ex_sg_def)
  from parse_tooltip_strict_format [OF v c ex_raw_normalized]
  have "parse_tooltip (Some ex_raw) =
     Some \<lparr>county = ascii ''Shasta County'', state = ascii ''CA'',
           individual_premium = Some (round_double (amount_value ex_ind)),
           small_group_premium = Some (round_double (amount_value ex_sg)),
           difference = Some (round_double (amount_value ex_df))\<rparr>"
    by blast
  then show ?thesis unfolding ex_amount_values .
qed

section \<open>Tooltips that miss the strict pattern\<close>

lemmas class_defs = TOOLTIP_PATTERN_def simple_pattern_def number_pattern_def lit_i_def lit_def
  ws0_def dollar_opt_def ci_def ascii_lower_def is_space_def not_comma_def upper_az_i_def
  upper_az_def dash_class_def amount_class_def digit_or_comma_def is_digit_def decimal_value_def
  nd_blocks_def

lemma tooltip_with_normalized: "\<not> is_space d \<Longrightarrow> normalize_ws (tooltip_with d) = tooltip_with d"
  by (simp add: normalize_ws_def tooltip_with_def ascii_def is_space_def)

lemma tooltip_with_nonempty: "tooltip_with d \<noteq> []"
  by (simp add: tooltip_with_def ascii_def)

lemma strict_fails_en_dash: "search TOOLTIP_PATTERN (tooltip_with 8211) = None"
  by (simp add: tooltip_with_def ascii_def class_defs)

lemma strict_fails_minus: "search TOOLTIP_PATTERN (tooltip_with 8722) = None"
  by (simp add: tooltip_with_def ascii_def class_defs)

lemma simple_en_dash:
  "map_option (\<lambda>m. (fst m ''1'', fst m ''2'')) (search simple_pattern (tooltip_with 8211)) =
     Some (ascii ''Shasta County'', ascii ''CA'')"
  by (simp add: tooltip_with_def ascii_def class_defs push_def)

lemma simple_minus:
  "map_option (\<lambda>m. (fst m ''1'', fst m ''2'')) (search simple_pattern (tooltip_with 8722)) =
     Some (ascii ''Shasta County'', ascii ''CA'')"
  by (simp add: tooltip_with_def ascii_def class_defs push_def)

lemma findall_en_dash:
  "findall number_pattern (tooltip_with 8211) =
     [ascii '','', amount_text ex_df, amount_text ex_ind, amount_text ex_sg]"
  by (simp add: tooltip_with_def ascii_def class_defs push_def findall.simps amount_text_def
        ex_df_def ex_ind_def ex_sg_def grouped.simps dec.simps pad2_def pad3_def)

lemma findall_minus:
  "findall number_pattern (tooltip_with 8722) =
     [ascii '','', amount_text ex_df, amount_text ex_ind, amount_text ex_sg]"
  by (simp add: tooltip_with_def ascii_def class_defs push_def findall.simps amount_text_def
        ex_df_def ex_ind_def ex_sg_def grouped.simps dec.simps pad2_def pad3_def)

lemma parse_money_comma: "parse_money (Some (ascii '','')) = None"
  by (simp add: parse_money_def ascii_def remove_char_def strip_def py_float_def strip_ascii_def
        parse_decimal_def split_sign_def parse_inf_or_nan_def)

lemma strip_examples: "strip (ascii ''Shasta County'') = ascii ''Shasta County''"
  "strip (ascii ''CA'') = ascii ''CA''"
  by (simp_all add: strip_def ascii_def is_space_def)

text \<open>What the fallback returns once the two searches and the tokens are known.\<close>

lemma parse_tooltip_fallback:
  assumes "t \<noteq> []" and "normalize_ws t = t" and "search TOOLTIP_PATTERN t = None"
      and "map_option (\<lambda>m. (fst m ''1'', fst m ''2'')) (search simple_pattern t) = Some (c, s)"
      and "findall number_pattern t = [n0, n1, n2, n3]"
  shows "parse_tooltip (Some t) =
           Some \<lparr>county = strip c, state = strip s,
                 individual_premium = parse_money (Some n2),
                 small_group_premium = parse_money (Some n3),
                 difference = parse_money (Some n0)\<rparr>"
proof -
  from assms(4) obtain m where m: "search simple_pattern t = Some m"
    and g: "fst m ''1'' = c" "fst m ''2'' = s"
    by (cases "search simple_pattern t") auto
  show ?thesis
    using assms(1) by (simp add: parse_tooltip_def assms(2,3,5) m g)
qed

lemma hyphen_text_strict:
  "hyphen_text = strict_text (ascii ''Shasta County'') (ascii ''CA'') ex_df ex_ind ex_sg"
  by (simp add: hyphen_text_def tooltip_with_def ascii_def strict_text_def
        amount_text_def ex_df_def ex_ind_def ex_sg_def grouped.simps dec.simps pad2_def pad3_def)

lemma parse_hyphen_text:
  "parse_tooltip (Some hyphen_text) =
     Some \<lparr>county = ascii ''Shasta County'', state = ascii ''CA'',
           individual_premium = Some (Fin (2829 / 2)),
           small_group_premium = Some (Fin (7114807801943163 / 8796093022208)),
           difference = Some (Fin (5327265777970053 / 8796093022208))\<rparr>"
proof -
  have v: "valid_county (ascii ''Shasta County'')" "valid_state (ascii ''CA'')"
    by (simp_all add: valid_county_def valid_state_def ascii_def is_space_def)
  have c: "cents ex_df < 100" "cents ex_ind < 100" "cents ex_sg < 100"
    by (simp_all add: ex_df_def ex_ind_def ex_sg_def)
  have "\<not> is_space 45" by (simp add: is_space_def)
  then have "normalize_ws hyphen_text = hyphen_text"
    unfolding hyphen_text_def by (rule tooltip_with_normalized)
  then have n: "normalize_ws hyphen_text =
      strict_text (ascii ''Shasta County'') (ascii ''CA'') ex_df ex_ind ex_sg"
    using hyphen_text_strict by simp
  show ?thesis
    unfolding parse_tooltip_strict [OF v c n] ex_amount_values ..
qed

text \<open>
  Claim C7 fails on the code. With the en dash U+2013 between \<open>Ind\<close> and \<open>Small\<close> the
  strict pattern finds no match, since the class in the source holds the hyphen and the
  code points U+00E2, U+20AC and U+201C. The fallback then answers, and it returns no
  difference, whereas the same tooltip with the hyphen returns all three amounts.
\<close>

theorem en_dash_misses_strict_pattern:
  "search TOOLTIP_PATTERN (normalize_ws en_dash_text) = None \<and>
   parse_tooltip (Some en_dash_text) =
     Some \<lparr>county = ascii ''Shasta County'', state = ascii ''CA'',
           individual_premium = Some (Fin (2829 / 2)),
           small_group_premium = Some (Fin (7114807801943163 / 8796093022208)),
           difference = None\<rparr> \<and>
   parse_tooltip (Some hyphen_text) =
     Some \<lparr>county = ascii ''Shasta County'', state = ascii ''CA'',
           individual_premium = Some (Fin (2829 / 2)),
           small_group_premium = Some (Fin (7114807801943163 / 8796093022208)),
           difference = Some (Fin (5327265777970053 / 8796093022208))\<rparr>"
proof -
  have sp: "\<not> is_space 8211" by (simp add: is_space_def)
  note n = tooltip_with_normalized [OF sp]
  have c: "cents ex_df < 100" "cents ex_ind < 100" "cents ex_sg < 100"
    by (simp_all add: ex_df_def ex_ind_def ex_sg_def)
  have "parse_tooltip (Some (tooltip_with 8211)) =
           Some \<lparr>county = strip (ascii ''Shasta County''), state = strip (ascii ''CA''),
                 individual_premium = parse_money (Some (amount_text ex_ind)),
                 small_group_premium = parse_money (Some (amount_text ex_sg)),
                 difference = parse_money (Some (ascii '',''))\<rparr>"
    using tooltip_with_nonempty n strict_fails_en_dash simple_en_dash findall_en_dash
    by (rule parse_tooltip_fallback)
  then have "parse_tooltip (Some en_dash_text) =
     Some \<lparr>county = ascii ''Shasta County'', state = ascii ''CA'',
           individual_premium = Some (Fin (2829 / 2)),
           small_group_premium = Some (Fin (7114807801943163 / 8796093022208)),
           difference = None\<rparr>"
    by (simp add: en_dash_text_def strip_examples parse_money_amount c ex_amount_values
          parse_money_comma)
  moreover have "search TOOLTIP_PATTERN (normalize_ws en_dash_text) = None"
    by (simp add: en_dash_text_def n strict_fails_en_dash)
  ultimately show ?thesis using parse_hyphen_text by blast
qed

text \<open>
  Claim C2 fails on the code. In a tooltip that misses the strict pattern (here with the
  minus sign U+2212) and shows three amounts, the first token that \<open>findall\<close> returns is
  the comma between county and state, so the difference is read from that comma and is
  absent, while the first amount, 605.64, is dropped.
\<close>

theorem comma_is_first_token:
  "search TOOLTIP_PATTERN (normalize_ws minus_text) = None \<and>
   findall number_pattern (normalize_ws minus_text) =
     [ascii '','', ascii ''605.64'', ascii ''1,414.50'', ascii ''808.86''] \<and>
   parse_tooltip (Some minus_text) =
     Some \<lparr>county = ascii ''Shasta County'', state = ascii ''CA'',
           individual_premium = Some (Fin (2829 / 2)),
           small_group_premium = Some (Fin (7114807801943163 / 8796093022208)),
           difference = None\<rparr>"
proof -
  have sp: "\<not> is_space 8722" by (simp add: is_space_def)
  note n = tooltip_with_normalized [OF sp]
  have c: "cents ex_df < 100" "cents ex_ind < 100" "cents ex_sg < 100"
    by (simp_all add: ex_df_def ex_ind_def ex_sg_def)
  have "parse_tooltip (Some (tooltip_with 8722)) =
           Some \<lparr>county = strip (ascii ''Shasta County''), state = strip (ascii ''CA''),
                 individual_premium = parse_money (Some (amount_text ex_ind)),
                 small_group_premium = parse_money (Some (amount_text ex_sg)),
                 difference = parse_money (Some (ascii '',''))\<rparr>"
    using tooltip_with_nonempty n strict_fails_minus simple_minus findall_minus
    by (rule parse_tooltip_fallback)
  then have p: "parse_tooltip (Some minus_text) =
     Some \<lparr>county = ascii ''Shasta County'', state = ascii ''CA'',
           individual_premium = Some (Fin (2829 / 2)),
           small_group_premium = Some (Fin (7114807801943163 / 8796093022208)),
           difference = None\<rparr>"
    by (simp add: minus_text_def strip_examples parse_money_amount c ex_amount_values
          parse_money_comma)
  have s: "search TOOLTIP_PATTERN (normalize_ws minus_text) = None"
    by (simp add: minus_text_def n strict_fails_minus)
  have "findall number_pattern (normalize_ws minus_text) =
     [ascii '','', amount_text ex_df, amount_text ex_ind, amount_text ex_sg]"
    by (simp add: minus_text_def n findall_minus)
  also have "\<dots> = [ascii '','', ascii ''605.64'', ascii ''1,414.50'', ascii ''808.86'']"
    by (simp add: amount_text_def ex_df_def ex_ind_def ex_sg_def grouped.simps dec.simps
          pad2_def pad3_def ascii_def)
  finally show ?thesis using p s by blast
qed

end
